theory Spec2Isabelle
  imports Main "HOL-Library.AList"
begin

section \<open>The script runner of \<^verbatim>\<open>lib/streamlit/ScriptRunner.py\<close>\<close>

text \<open>
  The module holds a small state machine (\<^verbatim>\<open>class ScriptRunner\<close>), driven from two
  sides: a controller calls \<^verbatim>\<open>request_rerun\<close>, \<^verbatim>\<open>request_stop\<close> and
  \<^verbatim>\<open>request_pause_unpause\<close>; the script thread runs \<^verbatim>\<open>_run\<close> and, through the
  trace hook, \<^verbatim>\<open>maybe_handle_execution_control_request\<close>. A second part of the module
  rewrites the syntax tree of the script (\<^verbatim>\<open>_modify_ast\<close>).

  The Python object is a record, every method a function from the object to the object it
  leaves behind. Names follow the source without the leading underscore.
\<close>

subsection \<open>Data\<close>

text \<open>\<^verbatim>\<open>class State\<close>: the seven string constants.\<close>

datatype State =
  INITIAL | RUNNING | STOP_REQUESTED | RERUN_REQUESTED | PAUSE_REQUESTED | PAUSED | STOPPED

text \<open>The report the runner is built with; the runner reads both fields and writes \<open>argv\<close>.\<close>

record Report =
  script_path :: string
  argv :: "string list"

text \<open>
  The fields of \<^verbatim>\<open>ScriptRunner.__init__\<close>. \<open>state\<close> is \<^verbatim>\<open>self._state\<close>, which is
  \<^verbatim>\<open>None\<close> until \<^verbatim>\<open>__init__\<close> sets it; \<open>paused\<close> and \<open>state_change_requested\<close> are
  the two \<^verbatim>\<open>threading.Event\<close>s, each a flag. Three fields record the effects a method
  has outside the object: \<open>on_state_changed\<close> is the list of values sent on the signal of
  that name, oldest first; \<open>on_file_change_not_handled\<close> counts the sends on that signal;
  \<open>threads_spawned\<close> counts the threads that \<^verbatim>\<open>spawn_script_thread\<close> has started.
\<close>

record ScriptRunner =
  report :: Report
  state :: "State option"
  main_thread_id :: nat
  paused :: bool
  state_change_requested :: bool
  run_on_save :: bool
  on_state_changed :: "State list"
  on_file_change_not_handled :: nat
  threads_spawned :: nat

text \<open>
  The exceptions that leave a method of the module: the two control exceptions, the
  \<^verbatim>\<open>RuntimeError\<close> and the failed \<^verbatim>\<open>assert\<close> of \<^verbatim>\<open>_run\<close>, what \<^verbatim>\<open>open\<close>,
  \<^verbatim>\<open>ast.parse\<close> and \<^verbatim>\<open>compile\<close> raise, and what the script itself raises.
\<close>

datatype exn =
  StopException
  | RerunException
  | RuntimeError string
  | AssertionError
  | IOError
  | SyntaxError
  | ScriptError string

subsection \<open>The state and the requests of the controller\<close>

definition set_state :: "State \<Rightarrow> ScriptRunner \<Rightarrow> ScriptRunner" where
  "set_state new_state self =
     (if state self = Some new_state then self
      else self\<lparr>state := Some new_state,
                on_state_changed := on_state_changed self @ [new_state]\<rparr>)"

text \<open>
  \<^verbatim>\<open>__init__\<close>, from the report, the identity of the calling thread and the option
  \<^verbatim>\<open>proxy.runOnSave\<close>. The file observer it builds last is outside the model; what the
  observer calls is \<open>maybe_handle_file_changed\<close> below.
\<close>

definition init :: "Report \<Rightarrow> nat \<Rightarrow> bool \<Rightarrow> ScriptRunner" where
  "init rep tid ros =
     set_state INITIAL
       \<lparr>report = rep, state = None, main_thread_id = tid, paused = False,
        state_change_requested = False, run_on_save = ros, on_state_changed = [],
        on_file_change_not_handled = 0, threads_spawned = 0\<rparr>"

definition spawn_script_thread :: "ScriptRunner \<Rightarrow> ScriptRunner" where
  "spawn_script_thread self = self\<lparr>threads_spawned := Suc (threads_spawned self)\<rparr>"

definition is_running :: "ScriptRunner \<Rightarrow> bool" where
  "is_running self = (state self = Some RUNNING)"

definition is_fully_stopped :: "ScriptRunner \<Rightarrow> bool" where
  "is_fully_stopped self = (state self = Some INITIAL \<or> state self = Some STOPPED)"

definition request_rerun :: "string list \<Rightarrow> ScriptRunner \<Rightarrow> ScriptRunner" where
  "request_rerun new_argv self0 =
     (let self = self0\<lparr>report := (report self0)\<lparr>argv := new_argv\<rparr>\<rparr>
      in if is_fully_stopped self then spawn_script_thread self
         else (set_state RERUN_REQUESTED self)
                \<lparr>paused := False, state_change_requested := True\<rparr>)"

definition request_stop :: "ScriptRunner \<Rightarrow> ScriptRunner" where
  "request_stop self =
     (if is_fully_stopped self then self
      else (set_state STOP_REQUESTED self)
             \<lparr>paused := False, state_change_requested := True\<rparr>)"

definition request_pause :: "ScriptRunner \<Rightarrow> ScriptRunner" where
  "request_pause self =
     (if is_fully_stopped self then self
      else (set_state PAUSE_REQUESTED self)\<lparr>state_change_requested := True\<rparr>)"

definition request_pause_unpause :: "ScriptRunner \<Rightarrow> ScriptRunner" where
  "request_pause_unpause self =
     (if state self = Some PAUSED then (set_state RUNNING self)\<lparr>paused := False\<rparr>
      else request_pause self)"

definition maybe_handle_file_changed :: "ScriptRunner \<Rightarrow> ScriptRunner" where
  "maybe_handle_file_changed self =
     (if run_on_save self then request_rerun (argv (report self)) self
      else self\<lparr>on_file_change_not_handled := Suc (on_file_change_not_handled self)\<rparr>)"

text \<open>One call of the controller, or of the file observer, on the runner.\<close>

datatype request = RequestRerun "string list" | RequestStop | RequestPauseUnpause | FileChanged

fun apply_request :: "request \<Rightarrow> ScriptRunner \<Rightarrow> ScriptRunner" where
  "apply_request (RequestRerun a) self = request_rerun a self"
| "apply_request RequestStop self = request_stop self"
| "apply_request RequestPauseUnpause self = request_pause_unpause self"
| "apply_request FileChanged self = maybe_handle_file_changed self"

fun apply_requests :: "request list \<Rightarrow> ScriptRunner \<Rightarrow> ScriptRunner" where
  "apply_requests [] self = self"
| "apply_requests (q # qs) self = apply_requests qs (apply_request q self)"

subsection \<open>The script thread\<close>

text \<open>
  What the script thread sees beside the runner: the module \<^verbatim>\<open>streamlit\<close> it reports
  to (\<open>st\<close>, the calls made on it, oldest first), \<^verbatim>\<open>sys.argv\<close>, and the other threads.
  The controller runs on another thread; \<open>pending\<close> lists what it is going to call, one
  entry for each slot of time in which the script thread is busy or asleep: the requests
  that arrive in that slot, in order. When \<open>pending\<close> is empty no request arrives any
  more. Requests arrive only in these slots: the threads are not interleaved inside a
  method of the runner.

  \<open>execs\<close> records, for every \<^verbatim>\<open>exec\<close> that \<^verbatim>\<open>_run\<close> has made, the dictionary passed
  as \<^verbatim>\<open>globals\<close> and \<^verbatim>\<open>locals\<close> as it is before and after the call. The dictionary is a
  local variable of \<^verbatim>\<open>_run\<close>; the record only makes it visible.
\<close>

type_synonym namespace = "(string \<times> string) list"

datatype st_call = StReset | StException exn

record World =
  runner :: ScriptRunner
  pending :: "request list list"
  st :: "st_call list"
  sys_argv :: "string list"
  execs :: "(namespace \<times> namespace) list"

text \<open>
  How a call on the script thread ends: it returns, it raises, or it never returns
  (\<open>Blocked\<close>: the loop of \<^verbatim>\<open>_pause\<close> polls for ever).
\<close>

datatype completion = Normal | Raised exn | Blocked

text \<open>One slot of time passes: the requests of the slot are served.\<close>

definition tick :: "World \<Rightarrow> World" where
  "tick w =
     (case pending w of
        [] \<Rightarrow> w
      | qs # rest \<Rightarrow> w\<lparr>runner := apply_requests qs (runner w), pending := rest\<rparr>)"

text \<open>
  The loop of \<^verbatim>\<open>_pause\<close>, \<^verbatim>\<open>while self._paused.is_set(): time.sleep(0.1)\<close>. Each
  \<^verbatim>\<open>sleep\<close> is one slot. With the flag set and no request left to arrive the loop
  never ends.
\<close>

fun pause_wait :: "ScriptRunner \<Rightarrow> request list list \<Rightarrow> completion \<times> ScriptRunner \<times> request list list" where
  "pause_wait self [] = (if paused self then (Blocked, self, []) else (Normal, self, []))"
| "pause_wait self (qs # rest) =
     (if paused self then pause_wait (apply_requests qs self) rest
      else (Normal, self, qs # rest))"

definition pause :: "World \<Rightarrow> completion \<times> World" where
  "pause w =
     (let self1 = (runner w)\<lparr>paused := True\<rparr>;
          self2 = set_state PAUSED self1;
          (c, self3, rest) = pause_wait self2 (pending w)
      in (c, w\<lparr>runner := self3, pending := rest\<rparr>))"

definition maybe_handle_execution_control_request :: "World \<Rightarrow> completion \<times> World" where
  "maybe_handle_execution_control_request w =
     (if state_change_requested (runner w) then
        if state (runner w) = Some STOP_REQUESTED then (Raised StopException, w)
        else if state (runner w) = Some RERUN_REQUESTED then (Raised RerunException, w)
        else if state (runner w) = Some PAUSE_REQUESTED then pause w
        else (Normal, w)
      else (Normal, w))"

text \<open>
  The script. \<^verbatim>\<open>_run\<close> reads it from the file, compiles it and hands it to \<^verbatim>\<open>exec\<close>;
  what it does then is not code of this module. The model keeps of a script what the
  runner can observe: whether \<^verbatim>\<open>ast.parse\<close> accepts the text (\<open>parses\<close>), whether
  \<^verbatim>\<open>compile\<close> accepts what \<^verbatim>\<open>_run\<close> hands it, the text or the rewritten tree
  (\<open>compiles\<close>), and the lines that are executed, each of which binds a name of the
  namespace or raises an exception of its own. A script does not raise the two control
  exceptions itself and calls no method of the runner. Each line takes one slot of time.
\<close>

datatype line = Bind string string | Throw string

record Script =
  parses :: bool
  compiles :: bool
  body :: "line list"

fun exec_line :: "line \<Rightarrow> namespace \<Rightarrow> exn + namespace" where
  "exec_line (Bind x v) ns = Inr (AList.update x v ns)"
| "exec_line (Throw m) ns = Inl (ScriptError m)"

text \<open>
  \<^verbatim>\<open>trace_calls\<close>, the function that \<^verbatim>\<open>_install_tracer\<close> hands to \<^verbatim>\<open>sys.settrace\<close>
  when the option \<^verbatim>\<open>runner.installTracer\<close> is on (\<open>tracer\<close>): it calls the hook
  and returns itself, so Python calls it on every event of a frame it traces. With the
  option off nothing is installed.
\<close>

definition trace_calls :: "bool \<Rightarrow> World \<Rightarrow> completion \<times> World" where
  "trace_calls tracer w =
     (if tracer then maybe_handle_execution_control_request w else (Normal, w))"

text \<open>
  The frame of the script: \<^verbatim>\<open>trace_calls\<close> runs on the \<^verbatim>\<open>line\<close> event before each
  line, on the \<^verbatim>\<open>exception\<close> event when a line raises, and on the \<^verbatim>\<open>return\<close> event
  when the frame is left, at the end of the script or with the exception of a line. An
  exception of \<^verbatim>\<open>trace_calls\<close> takes the place of whatever the frame was doing, and
  Python then removes the trace function, so no later event of the frame calls it.
\<close>

fun exec_lines :: "bool \<Rightarrow> line list \<Rightarrow> namespace \<Rightarrow> World \<Rightarrow> completion \<times> namespace \<times> World" where
  "exec_lines tracer [] ns w =
     (case trace_calls tracer w of (c, w1) \<Rightarrow> (c, ns, w1))"
| "exec_lines tracer (l # ls) ns w =
     (case trace_calls tracer w of
        (Normal, w1) \<Rightarrow>
          (case exec_line l ns of
             Inr ns1 \<Rightarrow> exec_lines tracer ls ns1 (tick w1)
           | Inl e \<Rightarrow>
               (case trace_calls tracer (tick w1) of
                  (Normal, w2) \<Rightarrow>
                    (case trace_calls tracer w2 of
                       (Normal, w3) \<Rightarrow> (Raised e, ns, w3)
                     | (c, w3) \<Rightarrow> (c, ns, w3))
                | (c, w2) \<Rightarrow> (c, ns, w2)))
      | (c, w1) \<Rightarrow> (c, ns, w1))"

text \<open>
  \<^verbatim>\<open>exec(code, namespace, namespace)\<close>. Python first binds \<^verbatim>\<open>__builtins__\<close> in the
  dictionary when it is not bound there, then enters the frame of the script, which is
  the \<^verbatim>\<open>call\<close> event, and runs the lines. What \<^verbatim>\<open>trace_calls\<close> raises leaves
  \<^verbatim>\<open>exec\<close>. The events of frames other than that of the script are outside the model.
\<close>

definition exec_script :: "bool \<Rightarrow> line list \<Rightarrow> namespace \<Rightarrow> World \<Rightarrow> completion \<times> namespace \<times> World" where
  "exec_script tracer ls ns w =
     (let ns0 = (if map_of ns ''__builtins__'' = None
                 then AList.update ''__builtins__'' ''<module builtins>'' ns else ns)
      in case trace_calls tracer w of
           (Normal, w1) \<Rightarrow> exec_lines tracer ls ns0 w1
         | (c, w1) \<Rightarrow> (c, ns0, w1))"

text \<open>The two options of \<^verbatim>\<open>config\<close> that \<^verbatim>\<open>_run\<close> reads.\<close>

record Config =
  autoWrite :: bool
  installTracer :: bool

text \<open>
  The start of \<^verbatim>\<open>_run\<close>. Lines 129 to 135: the assertion on the thread and the check
  that no script is running; \<open>run_check\<close> gives the exception raised, if any. Lines 138
  to 142: \<^verbatim>\<open>st._reset()\<close>, the flag cleared, the state set. \<open>run_startup\<close> is the two
  one after the other, as one thread executes them.
\<close>

definition run_check :: "nat \<Rightarrow> World \<Rightarrow> exn option" where
  "run_check script_thread_id w =
     (if script_thread_id = main_thread_id (runner w) then Some AssertionError
      else if \<not> is_fully_stopped (runner w) then Some (RuntimeError ''Script is already running'')
      else None)"

definition run_reset :: "World \<Rightarrow> World" where
  "run_reset w =
     (let w1 = w\<lparr>st := st w @ [StReset]\<rparr>;
          w2 = w1\<lparr>runner := (runner w1)\<lparr>state_change_requested := False\<rparr>\<rparr>
      in w2\<lparr>runner := set_state RUNNING (runner w2)\<rparr>)"

definition run_startup :: "nat \<Rightarrow> World \<Rightarrow> exn + World" where
  "run_startup script_thread_id w =
     (case run_check script_thread_id w of
        Some e \<Rightarrow> Inl e
      | None \<Rightarrow> Inr (run_reset w))"

text \<open>
  Lines 147 to 151: the file is opened and read (\<open>None\<close>: \<^verbatim>\<open>open\<close> raises), and with
  \<^verbatim>\<open>runner.autoWrite\<close> the text goes through \<^verbatim>\<open>_modify_ast\<close>, whose \<^verbatim>\<open>ast.parse\<close>
  raises \<^verbatim>\<open>SyntaxError\<close> on a text that does not parse. Both are outside the
  \<^verbatim>\<open>try\<close> block.
\<close>

definition run_load :: "Config \<Rightarrow> Script option \<Rightarrow> exn + Script" where
  "run_load cfg file =
     (case file of
        None \<Rightarrow> Inl IOError
      | Some script \<Rightarrow>
          if autoWrite cfg \<and> \<not> parses script then Inl SyntaxError else Inr script)"

text \<open>The dictionary built at lines 182 to 186.\<close>

definition new_namespace :: "ScriptRunner \<Rightarrow> namespace" where
  "new_namespace self =
     [(''__name__'', ''__main__''), (''__file__'', script_path (report self))]"

text \<open>
  The body of the \<^verbatim>\<open>try\<close> block, lines 161 to 189: \<^verbatim>\<open>compile\<close>, which raises
  \<^verbatim>\<open>SyntaxError\<close> on what it does not accept (a text that does not parse is among
  it), the new dictionary, \<^verbatim>\<open>sys.argv\<close> and \<^verbatim>\<open>exec\<close>.
\<close>

definition run_try :: "Config \<Rightarrow> Script \<Rightarrow> World \<Rightarrow> completion \<times> World" where
  "run_try cfg script w =
     (if \<not> parses script \<or> \<not> compiles script then (Raised SyntaxError, w)
      else
        let ns = new_namespace (runner w);
            w1 = w\<lparr>sys_argv := argv (report (runner w))\<rparr>;
            (c, ns1, w2) = exec_script (installTracer cfg) (body script) ns w1
        in (c, w2\<lparr>execs := execs w2 @ [(ns, ns1)]\<rparr>))"

text \<open>
  The handlers and the \<^verbatim>\<open>finally\<close> clause, lines 191 to 204: the value of \<^verbatim>\<open>rerun\<close>
  and the world after them. They are not reached when the \<^verbatim>\<open>try\<close> block never returns.
\<close>

fun run_except :: "completion \<Rightarrow> World \<Rightarrow> (bool \<times> World) option" where
  "run_except Blocked w = None"
| "run_except Normal w = Some (False, w\<lparr>runner := set_state STOPPED (runner w)\<rparr>)"
| "run_except (Raised RerunException) w = Some (True, w\<lparr>runner := set_state STOPPED (runner w)\<rparr>)"
| "run_except (Raised StopException) w = Some (False, w\<lparr>runner := set_state STOPPED (runner w)\<rparr>)"
| "run_except (Raised e) w =
     Some (False, (w\<lparr>st := st w @ [StException e]\<rparr>)
                    \<lparr>runner := set_state STOPPED (runner w)\<rparr>)"

text \<open>
  \<^verbatim>\<open>_run\<close> calls itself after a \<^verbatim>\<open>RerunException\<close>. It comes back to the call only
  when a request has arrived since it cleared the flag, so each call has fewer slots of
  requests left than the one before: the recursion ends. The lemmas up to
  \<open>run_rerun_decreases\<close> are this argument.
\<close>

lemma pause_wait_pending:
  "pause_wait self ts = (c, self', ts') \<Longrightarrow> length ts' \<le> length ts"
  by (induction self ts rule: pause_wait.induct) (auto split: if_splits)

lemma checkpoint_pending:
  "maybe_handle_execution_control_request w = (c, w') \<Longrightarrow> length (pending w') \<le> length (pending w)"
  by (auto simp: maybe_handle_execution_control_request_def pause_def Let_def
           split: if_splits prod.splits dest: pause_wait_pending)

lemma tick_pending: "length (pending (tick w)) \<le> length (pending w)"
  by (simp add: tick_def split: list.splits)

lemma tick_flag:
  "state_change_requested (runner (tick w)) \<Longrightarrow> \<not> state_change_requested (runner w)
   \<Longrightarrow> length (pending (tick w)) < length (pending w)"
  by (auto simp: tick_def split: list.splits)

lemma trace_calls_pending:
  "trace_calls tr w = (c, w') \<Longrightarrow> length (pending w') \<le> length (pending w)"
  using checkpoint_pending [of w c w'] by (auto simp: trace_calls_def split: if_splits)

lemma trace_calls_unflagged:
  "\<not> state_change_requested (runner w) \<Longrightarrow> trace_calls tr w = (Normal, w)"
  by (simp add: trace_calls_def maybe_handle_execution_control_request_def)

text \<open>
  What holds from one world to the next, whenever it holds across a slot of time and
  across a call of the hook, holds across the frame of the script.
\<close>

lemma trace_calls_rel:
  assumes refl: "\<And>w. R w w"
    and hook: "\<And>w c w'. maybe_handle_execution_control_request w = (c, w') \<Longrightarrow> R w w'"
    and tc: "trace_calls tr a = (c, b)"
  shows "R a b"
proof (cases tr)
  case True
  with tc have "maybe_handle_execution_control_request a = (c, b)"
    by (simp add: trace_calls_def)
  then show ?thesis by (rule hook)
next
  case False
  with tc have "b = a" by (simp add: trace_calls_def)
  with refl [of a] show ?thesis by simp
qed

lemma exec_lines_rel:
  assumes refl: "\<And>w. R w w"
    and trans: "\<And>a b c. R a b \<Longrightarrow> R b c \<Longrightarrow> R a c"
    and slot: "\<And>w. R w (tick w)"
    and hook: "\<And>w c w'. maybe_handle_execution_control_request w = (c, w') \<Longrightarrow> R w w'"
  shows "exec_lines tr ls ns w = (c, ns', w') \<Longrightarrow> R w w'"
proof (induction ls arbitrary: ns w)
  case Nil
  obtain c1 w1 where t1: "trace_calls tr w = (c1, w1)" by (metis surj_pair)
  from trace_calls_rel [of R, OF refl hook t1] have "R w w1" .
  moreover from Nil t1 have "w' = w1" by simp
  ultimately show ?case by simp
next
  case (Cons l ls)
  obtain c1 w1 where t1: "trace_calls tr w = (c1, w1)" by (metis surj_pair)
  note r1 = trace_calls_rel [of R, OF refl hook t1]
  show ?case
  proof (cases "c1 = Normal")
    case False
    with Cons.prems t1 have "w' = w1" by (cases c1) simp_all
    with r1 show ?thesis by simp
  next
    case True
    show ?thesis
    proof (cases "exec_line l ns")
      case (Inr ns1)
      with Cons.prems t1 True have "exec_lines tr ls ns1 (tick w1) = (c, ns', w')" by simp
      from Cons.IH [OF this] have "R (tick w1) w'" .
      from trans [OF trans [OF r1 slot [of w1]] this] show ?thesis .
    next
      case (Inl e)
      obtain c2 w2 where t2: "trace_calls tr (tick w1) = (c2, w2)" by (metis surj_pair)
      note r2 = trace_calls_rel [of R, OF refl hook t2]
      have r12: "R w w2" by (rule trans [OF trans [OF r1 slot [of w1]] r2])
      show ?thesis
      proof (cases "c2 = Normal")
        case False
        with Cons.prems t1 True Inl t2 have "w' = w2" by (cases c2) simp_all
        with r12 show ?thesis by simp
      next
        case c2: True
        obtain c3 w3 where t3: "trace_calls tr w2 = (c3, w3)" by (metis surj_pair)
        from Cons.prems t1 True Inl t2 c2 t3 have "w' = w3" by (cases c3) simp_all
        with trans [OF r12 trace_calls_rel [of R, OF refl hook t3]] show ?thesis by simp
      qed
    qed
  qed
qed

lemma exec_script_rel:
  assumes refl: "\<And>w. R w w"
    and trans: "\<And>a b c. R a b \<Longrightarrow> R b c \<Longrightarrow> R a c"
    and slot: "\<And>w. R w (tick w)"
    and hook: "\<And>w c w'. maybe_handle_execution_control_request w = (c, w') \<Longrightarrow> R w w'"
    and ex: "exec_script tr ls ns w = (c, ns', w')"
  shows "R w w'"
proof -
  obtain c1 w1 where t1: "trace_calls tr w = (c1, w1)" by (metis surj_pair)
  note r1 = trace_calls_rel [of R, OF refl hook t1]
  show ?thesis
  proof (cases "c1 = Normal")
    case False
    with ex t1 have "w' = w1" by (cases c1) (simp_all add: exec_script_def Let_def)
    with r1 show ?thesis by simp
  next
    case True
    with ex t1 obtain ns0 where "exec_lines tr ls ns0 w1 = (c, ns', w')"
      by (simp add: exec_script_def Let_def)
    from exec_lines_rel [of R, OF refl trans slot hook this] have "R w1 w'" .
    from trans [OF r1 this] show ?thesis .
  qed
qed

lemma exec_lines_pending:
  assumes el: "exec_lines tr ls ns w = (c, ns', w')"
  shows "length (pending w') \<le> length (pending w)"
proof -
  let ?R = "\<lambda>a b. length (pending b) \<le> length (pending a)"
  have refl: "\<And>w. ?R w w" by simp
  have trans: "\<And>a b c. ?R a b \<Longrightarrow> ?R b c \<Longrightarrow> ?R a c" by simp
  have slot: "\<And>w. ?R w (tick w)" by (simp add: tick_pending)
  have hook: "\<And>w c w'. maybe_handle_execution_control_request w = (c, w') \<Longrightarrow> ?R w w'"
    by (rule checkpoint_pending)
  from exec_lines_rel [of ?R, OF refl trans slot hook el] show ?thesis .
qed

lemma exec_lines_rerun:
  "exec_lines tr ls ns w = (Raised RerunException, ns', w') \<Longrightarrow>
   \<not> state_change_requested (runner w) \<Longrightarrow> length (pending w') < length (pending w)"
proof (induction ls arbitrary: ns w)
  case Nil
  then show ?case by (simp add: trace_calls_unflagged)
next
  case (Cons l ls)
  note t1 = trace_calls_unflagged [OF Cons.prems(2), of tr]
  show ?case
  proof (cases "state_change_requested (runner (tick w))")
    case True
    note strict = tick_flag [OF True Cons.prems(2)]
    have "length (pending w') \<le> length (pending (tick w))"
    proof (cases "exec_line l ns")
      case (Inr ns1)
      with Cons.prems(1) t1 have "exec_lines tr ls ns1 (tick w) = (Raised RerunException, ns', w')"
        by simp
      then show ?thesis by (rule exec_lines_pending)
    next
      case (Inl e)
      obtain c2 w2 where t2: "trace_calls tr (tick w) = (c2, w2)" by (metis surj_pair)
      note p2 = trace_calls_pending [OF t2]
      show ?thesis
      proof (cases "c2 = Normal")
        case False
        with Cons.prems(1) t1 Inl t2 have "w' = w2" by (cases c2) simp_all
        with p2 show ?thesis by simp
      next
        case c2: True
        obtain c3 w3 where t3: "trace_calls tr w2 = (c3, w3)" by (metis surj_pair)
        from Cons.prems(1) t1 Inl t2 c2 t3 have "w' = w3" by (cases c3) simp_all
        with p2 trace_calls_pending [OF t3] show ?thesis by simp
      qed
    qed
    with strict show ?thesis by simp
  next
    case False
    note t2 = trace_calls_unflagged [OF False, of tr]
    show ?thesis
    proof (cases "exec_line l ns")
      case (Inr ns1)
      with Cons.prems(1) t1 have "exec_lines tr ls ns1 (tick w) = (Raised RerunException, ns', w')"
        by simp
      from Cons.IH [OF this False] tick_pending [of w] show ?thesis by simp
    next
      case (Inl e)
      then have "e \<noteq> RerunException" by (cases l) auto
      with Cons.prems(1) t1 t2 Inl show ?thesis by simp
    qed
  qed
qed

lemma exec_script_rerun:
  assumes "exec_script tr ls ns w = (Raised RerunException, ns', w')"
    and "\<not> state_change_requested (runner w)"
  shows "length (pending w') < length (pending w)"
proof -
  from assms obtain ns0 where "exec_lines tr ls ns0 w = (Raised RerunException, ns', w')"
    by (simp add: exec_script_def Let_def trace_calls_unflagged)
  from exec_lines_rerun [OF this assms(2)] show ?thesis .
qed

lemma run_startup_unfold:
  "run_startup tid w =
     (if tid = main_thread_id (runner w) then Inl AssertionError
      else if \<not> is_fully_stopped (runner w) then Inl (RuntimeError ''Script is already running'')
      else Inr (run_reset w))"
  by (simp add: run_startup_def run_check_def)

lemma set_state_flag [simp]: "state_change_requested (set_state s self) = state_change_requested self"
  by (simp add: set_state_def)

lemma run_startup_Inr:
  "run_startup tid w = Inr w1 \<Longrightarrow>
   \<not> state_change_requested (runner w1) \<and> pending w1 = pending w"
  by (auto simp: run_startup_unfold run_reset_def Let_def split: if_splits)

lemma run_try_rerun:
  assumes "run_try cfg script w1 = (Raised RerunException, w2)"
    and "\<not> state_change_requested (runner w1)"
  shows "length (pending w2) < length (pending w1)"
proof -
  obtain c ns1 w2' where ex: "exec_script (installTracer cfg) (body script) (new_namespace (runner w1))
      (w1\<lparr>sys_argv := argv (report (runner w1))\<rparr>) = (c, ns1, w2')"
    by (metis prod_cases3)
  with assms(1) have c: "c = Raised RerunException" and p: "pending w2 = pending w2'"
    by (auto simp: run_try_def Let_def split: if_splits)
  have "length (pending w2') < length (pending (w1\<lparr>sys_argv := argv (report (runner w1))\<rparr>))"
    by (rule exec_script_rerun [OF ex [unfolded c]]) (simp add: assms(2))
  with p show ?thesis by simp
qed

lemma run_except_rerun:
  "run_except c w2 = Some (True, w3) \<Longrightarrow> c = Raised RerunException \<and> pending w3 = pending w2"
  by (induction c w2 rule: run_except.induct) auto

lemma run_rerun_decreases:
  assumes "run_startup tid w = Inr w1"
    and "(c, w2) = run_try cfg script w1"
    and "run_except c w2 = Some y"
    and "(rerun, w3) = y"
    and "rerun"
  shows "length (pending w3) < length (pending w)"
proof -
  from assms(3-5) have "run_except c w2 = Some (True, w3)" by auto
  then have c: "c = Raised RerunException" and p: "pending w3 = pending w2"
    by (simp_all add: run_except_rerun)
  from assms(2) c have t: "run_try cfg script w1 = (Raised RerunException, w2)" by simp
  from run_startup_Inr [OF assms(1)] have f: "\<not> state_change_requested (runner w1)"
    and q: "pending w1 = pending w" by simp_all
  from run_try_rerun [OF t f] p q show ?thesis by simp
qed

text \<open>
  \<^verbatim>\<open>_run\<close>, on the thread \<open>script_thread_id\<close>, with the options \<open>cfg\<close> and the file \<open>f\<close>
  at \<^verbatim>\<open>script_path\<close>. An exception that leaves \<open>run_startup\<close> or \<open>run_load\<close> leaves
  \<^verbatim>\<open>_run\<close>: neither is inside the \<^verbatim>\<open>try\<close> block.
\<close>

function run :: "Config \<Rightarrow> Script option \<Rightarrow> nat \<Rightarrow> World \<Rightarrow> completion \<times> World" where
  "run cfg f script_thread_id w =
     (case run_startup script_thread_id w of
        Inl e \<Rightarrow> (Raised e, w)
      | Inr w1 \<Rightarrow>
          (case run_load cfg f of
             Inl e \<Rightarrow> (Raised e, w1)
           | Inr script \<Rightarrow>
               (case run_try cfg script w1 of
                  (c, w2) \<Rightarrow>
                    (case run_except c w2 of
                       None \<Rightarrow> (Blocked, w2)
                     | Some (rerun, w3) \<Rightarrow>
                         if rerun then run cfg f script_thread_id w3 else (Normal, w3)))))"
  by pat_completeness auto
termination
proof (relation "measure (\<lambda>(cfg, f, tid, w). length (pending w))", goal_cases)
  case 1
  show ?case by simp
next
  case 2
  from run_rerun_decreases [OF 2(1) 2(3) 2(4) 2(5) 2(6)] show ?case by simp
qed

declare run.simps [simp del]


subsection \<open>Several threads\<close>

text \<open>
  \<^verbatim>\<open>spawn_script_thread\<close> starts a thread whose target is \<^verbatim>\<open>_run\<close>, and nothing in the
  module waits for the thread before it. The system is the world and the threads started
  so far, each with the place it has reached in \<^verbatim>\<open>_run\<close>:
  \<^item> \<open>Unstarted\<close>: started by \<^verbatim>\<open>spawn_script_thread\<close>, or about to call \<^verbatim>\<open>_run\<close> again
    after a \<^verbatim>\<open>RerunException\<close> (line 207); \<^verbatim>\<open>_run\<close> not yet entered;
  \<^item> \<open>Checked\<close>: past the check of line 133 and before line 138;
  \<^item> \<open>Loading\<close>: past line 142, the file not yet read;
  \<^item> \<open>Active\<close>: the file read, before the \<^verbatim>\<open>finally\<close> clause;
  \<^item> \<open>Waiting\<close>: inside the loop of \<^verbatim>\<open>_pause\<close>;
  \<^item> \<open>Dead\<close>: \<^verbatim>\<open>_run\<close> has returned or raised.
  A step is one call of the controller, or one thread going from one of these places to
  the next. The source takes no lock: between the check of line 133 and the assignments
  of lines 138 to 142, which are one step (\<open>Resets\<close>), the controller and the other
  threads may take steps. The file and the script are not fixed: a thread may fail to
  load the file, may call the hook at any time while it is active, and may leave the
  \<^verbatim>\<open>try\<close> block at any time, normally or with an exception of the script.
\<close>

datatype place = Unstarted | Checked | Loading | Active | Waiting | Dead

record System =
  world :: World
  threads :: "place list"

definition is_worker :: "place \<Rightarrow> bool" where
  "is_worker p = (p = Active \<or> p = Waiting)"

definition workers :: "System \<Rightarrow> nat" where
  "workers s = length (filter is_worker (threads s))"

text \<open>
  The identity of thread \<open>i\<close>; the main thread is the one that built the runner.
\<close>

definition thread_id :: "System \<Rightarrow> nat \<Rightarrow> nat" where
  "thread_id s i = Suc (main_thread_id (runner (world s)) + i)"

text \<open>The ways the \<^verbatim>\<open>try\<close> block ends that are not the hook's doing.\<close>

fun of_script :: "completion \<Rightarrow> bool" where
  "of_script Normal = True"
| "of_script (Raised SyntaxError) = True"
| "of_script (Raised (ScriptError m)) = True"
| "of_script c = False"

inductive step :: "System \<Rightarrow> System \<Rightarrow> bool" where
  Request:
    "self' = apply_request q (runner (world s)) \<Longrightarrow>
     step s \<lparr>world = (world s)\<lparr>runner := self'\<rparr>,
             threads = threads s @
               replicate (threads_spawned self' - threads_spawned (runner (world s))) Unstarted\<rparr>"
| Check_fails:
    "i < length (threads s) \<Longrightarrow> threads s ! i = Unstarted \<Longrightarrow>
     run_check (thread_id s i) (world s) = Some e \<Longrightarrow>
     step s (s\<lparr>threads := (threads s)[i := Dead]\<rparr>)"
| Check_passes:
    "i < length (threads s) \<Longrightarrow> threads s ! i = Unstarted \<Longrightarrow>
     run_check (thread_id s i) (world s) = None \<Longrightarrow>
     step s (s\<lparr>threads := (threads s)[i := Checked]\<rparr>)"
| Resets:
    "i < length (threads s) \<Longrightarrow> threads s ! i = Checked \<Longrightarrow>
     step s \<lparr>world = run_reset (world s), threads = (threads s)[i := Loading]\<rparr>"
| Load_fails:
    "i < length (threads s) \<Longrightarrow> threads s ! i = Loading \<Longrightarrow>
     step s (s\<lparr>threads := (threads s)[i := Dead]\<rparr>)"
| Loads:
    "i < length (threads s) \<Longrightarrow> threads s ! i = Loading \<Longrightarrow>
     step s (s\<lparr>threads := (threads s)[i := Active]\<rparr>)"
| Hook_returns:
    "i < length (threads s) \<Longrightarrow> threads s ! i = Active \<Longrightarrow>
     maybe_handle_execution_control_request ((world s)\<lparr>pending := []\<rparr>) = (Normal, w') \<Longrightarrow>
     step s \<lparr>world = w', threads = threads s\<rparr>"
| Hook_pauses:
    "i < length (threads s) \<Longrightarrow> threads s ! i = Active \<Longrightarrow>
     maybe_handle_execution_control_request ((world s)\<lparr>pending := []\<rparr>) = (Blocked, w') \<Longrightarrow>
     step s \<lparr>world = w', threads = (threads s)[i := Waiting]\<rparr>"
| Hook_raises:
    "i < length (threads s) \<Longrightarrow> threads s ! i = Active \<Longrightarrow>
     maybe_handle_execution_control_request ((world s)\<lparr>pending := []\<rparr>) = (Raised e, w1) \<Longrightarrow>
     run_except (Raised e) w1 = Some (rerun, w') \<Longrightarrow>
     step s \<lparr>world = w', threads = (threads s)[i := (if rerun then Unstarted else Dead)]\<rparr>"
| Wakes:
    "i < length (threads s) \<Longrightarrow> threads s ! i = Waiting \<Longrightarrow>
     \<not> paused (runner (world s)) \<Longrightarrow>
     step s (s\<lparr>threads := (threads s)[i := Active]\<rparr>)"
| Leaves_try:
    "i < length (threads s) \<Longrightarrow> threads s ! i = Active \<Longrightarrow>
     of_script c \<Longrightarrow> run_except c (world s) = Some (rerun, w') \<Longrightarrow>
     step s \<lparr>world = w', threads = (threads s)[i := (if rerun then Unstarted else Dead)]\<rparr>"

text \<open>The systems that a new runner can reach.\<close>

inductive reachable :: "System \<Rightarrow> bool" where
  Start:
    "reachable \<lparr>world = \<lparr>runner = init rep tid ros, pending = [], st = [], sys_argv = a,
                          execs = []\<rparr>,
                threads = []\<rparr>"
| Step: "reachable s \<Longrightarrow> step s s' \<Longrightarrow> reachable s'"

subsection \<open>The rewriting of the syntax tree\<close>

text \<open>
  The nodes of \<^verbatim>\<open>ast\<close> that the module tells apart; every other kind of expression or
  statement is \<open>OtherExpr\<close> or \<open>OtherStmt\<close>. Positions in the text are left out, and of a
  call its function and its positional arguments are kept. A tree is the list
  \<^verbatim>\<open>tree.body\<close>.
\<close>

datatype expr =
  Str string
  | Name string
  | Call expr "expr list"
  | Tuple "expr list"
  | Attribute expr string
  | OtherExpr string

datatype import_alias = Alias string "string option"

datatype stmt =
  Expr expr
  | Assign "expr list" expr
  | Import "import_alias list"
  | ImportFrom string "import_alias list"
  | FunctionDef string "stmt list"
  | OtherStmt string

definition build_st_import_statement :: stmt where
  "build_st_import_statement = Import [Alias ''streamlit'' (Some ''__streamlit__'')]"

definition build_st_write_call :: "expr list \<Rightarrow> expr" where
  "build_st_write_call nodes = Call (Attribute (Name ''__streamlit__'') ''_transparent_write'') nodes"

text \<open>
  \<^verbatim>\<open>_get_st_write_from_expr(node, i)\<close> and \<^verbatim>\<open>_get_st_write_from_assign(node, i)\<close>, from
  \<^verbatim>\<open>node.value\<close>.
\<close>

fun get_st_write_from_expr :: "expr \<Rightarrow> nat \<Rightarrow> expr option" where
  "get_st_write_from_expr (Call f args) i = None"
| "get_st_write_from_expr (Str s) i =
     (if i = 0 then None else Some (build_st_write_call [Str s]))"
| "get_st_write_from_expr (Tuple elts) i =
     (if length elts = 1 then Some (build_st_write_call elts)
      else Some (build_st_write_call [Tuple elts]))"
| "get_st_write_from_expr (Name ident) i =
     Some (build_st_write_call [Str (''**'' @ ident @ ''**''), Name ident])"
| "get_st_write_from_expr v i = Some (build_st_write_call [v])"

fun get_st_write_from_assign :: "expr \<Rightarrow> nat \<Rightarrow> expr option" where
  "get_st_write_from_assign (Tuple elts) i =
     (if length elts \<noteq> 1 then None else Some (build_st_write_call [elts ! 0]))"
| "get_st_write_from_assign v i = None"

text \<open>Python's \<^verbatim>\<open>list.insert(i, x)\<close> for an index that is not negative.\<close>

definition list_insert :: "nat \<Rightarrow> 'a \<Rightarrow> 'a list \<Rightarrow> 'a list" where
  "list_insert i x xs = take i xs @ x # drop i xs"

fun is_import :: "stmt \<Rightarrow> bool" where
  "is_import (Import names) = True"
| "is_import (ImportFrom m names) = True"
| "is_import node = False"

text \<open>\<^verbatim>\<open>type(node) is ast.Expr and type(node.value) is ast.Str\<close>.\<close>

fun is_docstring :: "stmt \<Rightarrow> bool" where
  "is_docstring (Expr (Str s)) = True"
| "is_docstring node = False"


definition insert_import_statement :: "stmt list \<Rightarrow> stmt list" where
  "insert_import_statement tree =
     (let st_import = build_st_import_statement
      in if tree \<noteq> [] \<and> is_import (tree ! 0) then list_insert 1 st_import tree
         else if length tree > 1 \<and> is_docstring (tree ! 0) \<and> is_import (tree ! 1)
           then list_insert 2 st_import tree
         else list_insert 0 st_import tree)"

text \<open>
  The loop of \<^verbatim>\<open>_modify_ast\<close> over \<^verbatim>\<open>enumerate(tree.body)\<close>: \<open>modify_node i node\<close> is
  what the loop makes of the node at index \<open>i\<close>, \<open>modify_body i nodes\<close> the rest of the
  loop from index \<open>i\<close>. The body of a function is rewritten with \<^verbatim>\<open>is_root=False\<close>.
\<close>

fun modify_node :: "nat \<Rightarrow> stmt \<Rightarrow> stmt" and modify_body :: "nat \<Rightarrow> stmt list \<Rightarrow> stmt list" where
  "modify_node i (FunctionDef name b) = FunctionDef name (modify_body 0 b)"
| "modify_node i (Expr v) =
     (case get_st_write_from_expr v i of None \<Rightarrow> Expr v | Some st_write \<Rightarrow> Expr st_write)"
| "modify_node i (Assign targets v) =
     (case get_st_write_from_assign v i of
        None \<Rightarrow> Assign targets v
      | Some st_write \<Rightarrow> Assign targets st_write)"
| "modify_node i (Import names) = Import names"
| "modify_node i (ImportFrom m names) = ImportFrom m names"
| "modify_node i (OtherStmt s) = OtherStmt s"
| "modify_body i [] = []"
| "modify_body i (node # nodes) = modify_node i node # modify_body (Suc i) nodes"


subsection \<open>Concrete runners\<close>

text \<open>
  A runner as \<^verbatim>\<open>__init__\<close> leaves it, the same runner with a script running, and a world
  in which no request is going to arrive. The theorems below are instantiated at them.
\<close>

definition example_runner :: ScriptRunner where
  "example_runner = init \<lparr>script_path = ''app.py'', argv = [''app.py'']\<rparr> 0 False"

definition running_runner :: ScriptRunner where
  "running_runner = set_state RUNNING example_runner"

definition example_world :: World where
  "example_world = \<lparr>runner = example_runner, pending = [], st = [], sys_argv = [], execs = []\<rparr>"

subsection \<open>An invariant of the system\<close>

text \<open>
  In the states \<open>RERUN_REQUESTED\<close> and \<open>STOP_REQUESTED\<close> the pause flag is clear and the
  state-change flag is set.
\<close>

definition requested_flags :: "ScriptRunner \<Rightarrow> bool" where
  "requested_flags self =
     (state self = Some RERUN_REQUESTED \<or> state self = Some STOP_REQUESTED \<longrightarrow>
        \<not> paused self \<and> state_change_requested self)"

subsection \<open>Concrete systems\<close>

text \<open>
  A run of the system from a new runner: \<^verbatim>\<open>request_rerun\<close> starts a thread, the thread
  enters \<^verbatim>\<open>_run\<close>, and a second \<^verbatim>\<open>request_rerun\<close> arrives while the script is running.
\<close>

definition system_started :: System where
  "system_started = \<lparr>world = example_world, threads = []\<rparr>"

definition system_spawned :: System where
  "system_spawned =
     \<lparr>world = example_world\<lparr>runner := request_rerun [''app.py''] example_runner\<rparr>,
      threads = [Unstarted]\<rparr>"

definition world_running :: World where
  "world_running =
     example_world
       \<lparr>runner := set_state RUNNING
          ((request_rerun [''app.py''] example_runner)\<lparr>state_change_requested := False\<rparr>),
        st := [StReset]\<rparr>"

definition system_running :: System where
  "system_running = \<lparr>world = world_running, threads = [Active]\<rparr>"

definition system_rerun_requested :: System where
  "system_rerun_requested =
     \<lparr>world = world_running\<lparr>runner := request_rerun [''app.py'', ''x''] (runner world_running)\<rparr>,
      threads = [Active]\<rparr>"

text \<open>
  Another run from a new runner: \<^verbatim>\<open>request_rerun\<close> is called twice before either of
  the two threads it starts has entered \<^verbatim>\<open>_run\<close>; both threads then execute the check
  of line 133 before either executes line 138.
\<close>

definition world_spawned_twice :: World where
  "world_spawned_twice =
     example_world
       \<lparr>runner := request_rerun [''app.py''] (request_rerun [''app.py''] example_runner)\<rparr>"

definition system_two_workers :: System where
  "system_two_workers =
     \<lparr>world = run_reset (run_reset world_spawned_twice), threads = [Active, Active]\<rparr>"

text \<open>
  \<open>paused_runner\<close> is the running runner after a request to pause and the hook that
  serves it.
\<close>

definition paused_runner :: ScriptRunner where
  "paused_runner = set_state PAUSED ((request_pause_unpause running_runner)\<lparr>paused := True\<rparr>)"

subsection \<open>The requests served while the script thread waits\<close>

text \<open>
  The runner after the requests of the first \<open>k\<close> slots have been served, and two
  worlds in which the hook has something to do: a stop has been requested; a pause has
  been requested, and a second toggle is going to arrive in the second slot.
\<close>

definition after_slots :: "nat \<Rightarrow> request list list \<Rightarrow> ScriptRunner \<Rightarrow> ScriptRunner" where
  "after_slots k slots self = apply_requests (concat (take k slots)) self"

definition world_stop_requested :: World where
  "world_stop_requested = example_world\<lparr>runner := request_stop running_runner\<rparr>"

definition world_pause_requested :: World where
  "world_pause_requested =
     example_world\<lparr>runner := request_pause_unpause running_runner,
                   pending := [[], [RequestPauseUnpause], [RequestStop]]\<rparr>"

subsection \<open>Concrete scripts\<close>

text \<open>
  The exceptions that can leave \<^verbatim>\<open>_run\<close>: those raised before the \<^verbatim>\<open>try\<close> block.
\<close>

definition escapes :: "Config \<Rightarrow> exn \<Rightarrow> bool" where
  "escapes cfg e =
     (e = AssertionError \<or> e = RuntimeError ''Script is already running'' \<or> e = IOError \<or>
      (e = SyntaxError \<and> autoWrite cfg))"

text \<open>
  A text that does not parse; a script that binds a name and then raises, in a world
  where a request to rerun arrives while its first line is executed; a script with no
  line; and the options with the rewriting off and the trace hook on.
\<close>

definition broken_script :: Script where
  "broken_script = \<lparr>parses = False, compiles = False, body = []\<rparr>"

definition rerun_script :: Script where
  "rerun_script = \<lparr>parses = True, compiles = True, body = [Bind ''x'' ''1'', Throw ''boom'']\<rparr>"

definition empty_script :: Script where
  "empty_script = \<lparr>parses = True, compiles = True, body = []\<rparr>"

definition world_rerun_arrives :: World where
  "world_rerun_arrives = example_world\<lparr>pending := [[RequestRerun [''app.py'', ''again'']]]\<rparr>"

definition plain_options :: Config where
  "plain_options = \<lparr>autoWrite = False, installTracer = True\<rparr>"

subsection \<open>The notifications and the state\<close>

text \<open>
  The notifications sent so far follow the state: no two in a row are equal, and the last
  one is the state the runner is in (none has been sent while the state is \<^verbatim>\<open>None\<close>).
\<close>

definition log_tracks :: "ScriptRunner \<Rightarrow> bool" where
  "log_tracks self =
     (distinct_adj (on_state_changed self) \<and>
      (case state self of
         None \<Rightarrow> on_state_changed self = []
       | Some s \<Rightarrow> on_state_changed self \<noteq> [] \<and> last (on_state_changed self) = s))"

section \<open>Properties\<close>

subsection \<open>Auxiliary facts\<close>

lemma set_state_simps [simp]:
  "state (set_state s self) = Some s"
  "paused (set_state s self) = paused self"
  "report (set_state s self) = report self"
  "main_thread_id (set_state s self) = main_thread_id self"
  "run_on_save (set_state s self) = run_on_save self"
  "threads_spawned (set_state s self) = threads_spawned self"
  "on_file_change_not_handled (set_state s self) = on_file_change_not_handled self"
  by (simp_all add: set_state_def)

lemma example_runner_simps:
  "state example_runner = Some INITIAL"
  "on_state_changed example_runner = [INITIAL]"
  "paused example_runner = False"
  "state_change_requested example_runner = False"
  "main_thread_id example_runner = 0"
  "threads_spawned example_runner = 0"
  "report example_runner = \<lparr>script_path = ''app.py'', argv = [''app.py'']\<rparr>"
  by (simp_all add: example_runner_def init_def set_state_def)

lemma example_runner_fully_stopped: "is_fully_stopped example_runner"
  by (simp add: is_fully_stopped_def example_runner_simps)

lemma running_runner_simps:
  "state running_runner = Some RUNNING"
  "on_state_changed running_runner = [INITIAL, RUNNING]"
  "paused running_runner = False"
  "state_change_requested running_runner = False"
  by (simp_all add: running_runner_def set_state_def example_runner_simps)

lemma running_runner_not_stopped: "\<not> is_fully_stopped running_runner"
  by (simp add: is_fully_stopped_def running_runner_simps)

lemma request_stop_fully_stopped: "is_fully_stopped self \<Longrightarrow> request_stop self = self"
  by (simp add: request_stop_def)

lemma request_stop_funpow: "is_fully_stopped self \<Longrightarrow> (request_stop ^^ n) self = self"
  by (induction n) (simp_all add: request_stop_fully_stopped)

lemma set_state_log:
  "on_state_changed (set_state s self) =
     (if state self = Some s then on_state_changed self else on_state_changed self @ [s])"
  by (simp add: set_state_def)

lemma apply_request_log:
  "on_state_changed (apply_request q self) =
     (case state (apply_request q self) of
        None \<Rightarrow> on_state_changed self
      | Some s \<Rightarrow> if state self = Some s then on_state_changed self
                  else on_state_changed self @ [s])"
  by (cases q)
     (auto simp: request_rerun_def request_stop_def request_pause_unpause_def request_pause_def
        maybe_handle_file_changed_def spawn_script_thread_def is_fully_stopped_def Let_def
        set_state_log split: option.splits)

lemma request_stop_again:
  "state self = Some STOP_REQUESTED \<Longrightarrow>
   on_state_changed (request_stop self) = on_state_changed self \<and>
   state (request_stop self) = Some STOP_REQUESTED"
  by (simp add: request_stop_def is_fully_stopped_def set_state_log)

lemma request_stop_funpow_log:
  "state self = Some STOP_REQUESTED \<Longrightarrow>
   on_state_changed ((request_stop ^^ n) self) = on_state_changed self \<and>
   state ((request_stop ^^ n) self) = Some STOP_REQUESTED"
  by (induction n) (simp_all add: request_stop_again)

lemma request_stop_repeated:
  assumes "\<not> is_fully_stopped self" and "state self \<noteq> Some STOP_REQUESTED"
  shows "on_state_changed ((request_stop ^^ Suc n) self) = on_state_changed self @ [STOP_REQUESTED]"
proof -
  have s: "state (request_stop self) = Some STOP_REQUESTED"
    and l: "on_state_changed (request_stop self) = on_state_changed self @ [STOP_REQUESTED]"
    using assms by (simp_all add: request_stop_def set_state_log)
  have "(request_stop ^^ Suc n) self = (request_stop ^^ n) (request_stop self)"
    by (simp add: funpow_swap1)
  with request_stop_funpow_log [OF s, of n] l show ?thesis by simp
qed

lemma apply_request_not_stopped:
  "\<not> is_fully_stopped self \<Longrightarrow> \<not> is_fully_stopped (apply_request q self)"
  by (cases q)
     (auto simp: request_rerun_def request_stop_def request_pause_unpause_def request_pause_def
        maybe_handle_file_changed_def is_fully_stopped_def Let_def)

lemma run_startup_Inr_state:
  "run_startup tid w = Inr w' \<Longrightarrow>
   is_fully_stopped (runner w) \<and> state (runner w') = Some RUNNING \<and> pending w' = pending w"
  by (auto simp: run_startup_unfold run_reset_def Let_def split: if_splits)

lemma checkpoint_no_pending:
  assumes "maybe_handle_execution_control_request (w\<lparr>pending := []\<rparr>) = (c, w')"
  shows "pending w' = [] \<and>
         (c = Normal \<longrightarrow> runner w' = runner w) \<and>
         (c = Blocked \<longrightarrow> state (runner w') = Some PAUSED)"
  using assms
  by (auto simp: maybe_handle_execution_control_request_def pause_def Let_def split: if_splits)

lemma apply_request_flags:
  "requested_flags self \<Longrightarrow> requested_flags (apply_request q self)"
  by (cases q)
     (auto simp: requested_flags_def request_rerun_def request_stop_def request_pause_unpause_def
        request_pause_def maybe_handle_file_changed_def is_fully_stopped_def Let_def
        spawn_script_thread_def set_state_def)

lemma run_except_Some_state:
  "run_except c w = Some (rerun, w') \<Longrightarrow> state (runner w') = Some STOPPED"
  by (induction c w rule: run_except.induct) auto

lemma run_reset_simps [simp]:
  "state (runner (run_reset w)) = Some RUNNING"
  "state_change_requested (runner (run_reset w)) = False"
  "paused (runner (run_reset w)) = paused (runner w)"
  "pending (run_reset w) = pending w"
  "st (run_reset w) = st w @ [StReset]"
  "main_thread_id (runner (run_reset w)) = main_thread_id (runner w)"
  "threads_spawned (runner (run_reset w)) = threads_spawned (runner w)"
  by (simp_all add: run_reset_def Let_def)

lemma step_flags:
  assumes "step s s'" and "requested_flags (runner (world s))"
  shows "requested_flags (runner (world s'))"
  using assms
proof (induction rule: step.induct)
  case (Request self' q s)
  then show ?case by (simp add: apply_request_flags)
next
  case (Resets i s)
  show ?case by (simp add: requested_flags_def)
next
  case (Hook_returns i s w')
  from checkpoint_no_pending [OF Hook_returns(3)] Hook_returns(4) show ?case by simp
next
  case (Hook_pauses i s w')
  from checkpoint_no_pending [OF Hook_pauses(3)] show ?case by (simp add: requested_flags_def)
next
  case (Hook_raises i s e w1 rerun w')
  from run_except_Some_state [OF Hook_raises(4)] show ?case by (simp add: requested_flags_def)
next
  case (Leaves_try i s c rerun w')
  from run_except_Some_state [OF Leaves_try(4)] show ?case by (simp add: requested_flags_def)
qed simp_all

lemma reachable_flags: "reachable s \<Longrightarrow> requested_flags (runner (world s))"
proof (induction rule: reachable.induct)
  case (Start rep tid ros a)
  show ?case by (simp add: requested_flags_def init_def set_state_def)
next
  case (Step s s')
  then show ?case using step_flags by blast
qed

lemma request_rerun_again:
  assumes "state self = Some RERUN_REQUESTED" and "\<not> paused self" and "state_change_requested self"
  shows "request_rerun b self = self\<lparr>report := (report self)\<lparr>argv := b\<rparr>\<rparr>"
  using assms by (simp add: request_rerun_def is_fully_stopped_def set_state_def)

lemma pause_wait_not_paused [simp]:
  "\<not> paused self \<Longrightarrow> pause_wait self ts = (Normal, self, ts)"
  by (cases ts) simp_all

lemma reachable_started: "reachable system_started"
  unfolding system_started_def example_world_def example_runner_def by (rule reachable.Start)

lemma request_rerun_fully_stopped:
  "is_fully_stopped self \<Longrightarrow>
   request_rerun a self =
     self\<lparr>report := (report self)\<lparr>argv := a\<rparr>, threads_spawned := Suc (threads_spawned self)\<rparr>"
  by (simp add: request_rerun_def is_fully_stopped_def spawn_script_thread_def)

lemma spawned_runner_simps:
  "threads_spawned (request_rerun [''app.py''] example_runner) = 1"
  "state (request_rerun [''app.py''] example_runner) = Some INITIAL"
  "main_thread_id (request_rerun [''app.py''] example_runner) = 0"
  "paused (request_rerun [''app.py''] example_runner) = False"
  by (simp_all add: request_rerun_fully_stopped example_runner_fully_stopped example_runner_simps)

lemma reachable_spawned: "reachable system_spawned"
proof -
  have "step system_started
     \<lparr>world = (world system_started)\<lparr>runner := apply_request (RequestRerun [''app.py'']) (runner (world system_started))\<rparr>,
      threads = threads system_started @
         replicate (threads_spawned (apply_request (RequestRerun [''app.py'']) (runner (world system_started)))
            - threads_spawned (runner (world system_started))) Unstarted\<rparr>"
    by (rule step.Request) (rule refl)
  also have "\<dots> = system_spawned"
    by (simp add: system_started_def system_spawned_def example_world_def spawned_runner_simps
          example_runner_simps)
  finally show ?thesis using reachable_started reachable.Step by blast
qed

lemma world_running_reset: "run_reset (world system_spawned) = world_running"
  by (simp add: run_reset_def Let_def system_spawned_def world_running_def example_world_def)

lemma reachable_running: "reachable system_running"
proof -
  have c: "run_check (thread_id system_spawned 0) (world system_spawned) = None"
    by (simp add: run_check_def thread_id_def system_spawned_def example_world_def
          spawned_runner_simps is_fully_stopped_def)
  have "step system_spawned (system_spawned\<lparr>threads := (threads system_spawned)[0 := Checked]\<rparr>)"
    by (rule step.Check_passes [OF _ _ c]) (simp_all add: system_spawned_def)
  then have r1: "reachable \<lparr>world = world system_spawned, threads = [Checked]\<rparr>"
    using reachable.Step [OF reachable_spawned] by (simp add: system_spawned_def)
  have "step \<lparr>world = world system_spawned, threads = [Checked]\<rparr>
          \<lparr>world = run_reset (world \<lparr>world = world system_spawned, threads = [Checked]\<rparr>),
           threads = (threads \<lparr>world = world system_spawned, threads = [Checked]\<rparr>)[0 := Loading]\<rparr>"
    by (rule step.Resets) simp_all
  then have r2: "reachable \<lparr>world = world_running, threads = [Loading]\<rparr>"
    using reachable.Step [OF r1] by (simp add: world_running_reset)
  have "step \<lparr>world = world_running, threads = [Loading]\<rparr>
          (\<lparr>world = world_running, threads = [Loading]\<rparr>
             \<lparr>threads := (threads \<lparr>world = world_running, threads = [Loading]\<rparr>)[0 := Active]\<rparr>)"
    by (rule step.Loads) simp_all
  then show ?thesis
    using reachable.Step [OF r2] by (simp add: system_running_def)
qed

lemma world_running_simps:
  "state (runner world_running) = Some RUNNING"
  "threads_spawned (runner world_running) = 1"
  "pending world_running = []"
  "paused (runner world_running) = False"
  by (simp_all add: world_running_def spawned_runner_simps example_world_def)

lemma reachable_rerun_requested: "reachable system_rerun_requested"
proof -
  have "step system_running
     \<lparr>world = (world system_running)\<lparr>runner := apply_request (RequestRerun [''app.py'', ''x'']) (runner (world system_running))\<rparr>,
      threads = threads system_running @
         replicate (threads_spawned (apply_request (RequestRerun [''app.py'', ''x'']) (runner (world system_running)))
            - threads_spawned (runner (world system_running))) Unstarted\<rparr>"
    by (rule step.Request) (rule refl)
  also have "\<dots> = system_rerun_requested"
    by (simp add: system_running_def system_rerun_requested_def world_running_simps
          request_rerun_def is_fully_stopped_def)
  finally show ?thesis using reachable_running reachable.Step by blast
qed

lemma rerun_requested_state:
  "state (runner (world system_rerun_requested)) = Some RERUN_REQUESTED"
  by (simp add: system_rerun_requested_def request_rerun_def is_fully_stopped_def
        world_running_simps)

lemma paused_runner_simps:
  "state paused_runner = Some PAUSED"
  "paused paused_runner"
  "state_change_requested paused_runner"
  by (simp_all add: paused_runner_def request_pause_unpause_def request_pause_def
        running_runner_simps running_runner_not_stopped)

lemma apply_request_spawns:
  "threads_spawned (apply_request q self) =
     (if is_fully_stopped self \<and> (q = FileChanged \<longrightarrow> run_on_save self) \<and>
         q \<noteq> RequestStop \<and> q \<noteq> RequestPauseUnpause
      then Suc (threads_spawned self) else threads_spawned self)"
  by (cases q)
     (auto simp: request_rerun_def request_stop_def request_pause_unpause_def request_pause_def
        maybe_handle_file_changed_def is_fully_stopped_def Let_def spawn_script_thread_def)

lemma run_not_fully_stopped:
  "\<not> is_fully_stopped (runner w) \<Longrightarrow> tid \<noteq> main_thread_id (runner w) \<Longrightarrow>
   run cfg f tid w = (Raised (RuntimeError ''Script is already running''), w)"
  by (simp add: run.simps run_startup_def run_check_def)

lemma spawned_twice_runner:
  "runner world_spawned_twice =
     example_runner\<lparr>threads_spawned := 2\<rparr>"
  by (simp add: world_spawned_twice_def request_rerun_fully_stopped example_runner_fully_stopped
        is_fully_stopped_def example_runner_simps example_runner_def init_def)

lemma spawned_twice_check:
  "tid \<noteq> 0 \<Longrightarrow> run_check tid world_spawned_twice = None"
  by (simp add: run_check_def spawned_twice_runner is_fully_stopped_def example_runner_simps)

lemma reachable_spawned_twice:
  "reachable \<lparr>world = world_spawned_twice, threads = [Unstarted, Unstarted]\<rparr>"
proof -
  have "step system_spawned
     \<lparr>world = (world system_spawned)\<lparr>runner := apply_request (RequestRerun [''app.py'']) (runner (world system_spawned))\<rparr>,
      threads = threads system_spawned @
         replicate (threads_spawned (apply_request (RequestRerun [''app.py'']) (runner (world system_spawned)))
            - threads_spawned (runner (world system_spawned))) Unstarted\<rparr>"
    by (rule step.Request) (rule refl)
  also have "\<dots> = \<lparr>world = world_spawned_twice, threads = [Unstarted, Unstarted]\<rparr>"
    by (simp add: system_spawned_def world_spawned_twice_def request_rerun_fully_stopped
          example_runner_fully_stopped is_fully_stopped_def example_runner_simps)
  finally show ?thesis using reachable_spawned reachable.Step by blast
qed

lemma reachable_both_checked:
  "reachable \<lparr>world = world_spawned_twice, threads = [Checked, Checked]\<rparr>"
proof -
  let ?s0 = "\<lparr>world = world_spawned_twice, threads = [Unstarted, Unstarted]\<rparr>"
  let ?s1 = "\<lparr>world = world_spawned_twice, threads = [Checked, Unstarted]\<rparr>"
  have m: "main_thread_id (runner world_spawned_twice) = 0"
    by (simp add: spawned_twice_runner example_runner_simps)
  have "step ?s0 (?s0\<lparr>threads := (threads ?s0)[0 := Checked]\<rparr>)"
    by (rule step.Check_passes) (simp_all add: thread_id_def m spawned_twice_check)
  then have r1: "reachable ?s1"
    using reachable.Step [OF reachable_spawned_twice] by simp
  have "step ?s1 (?s1\<lparr>threads := (threads ?s1)[1 := Checked]\<rparr>)"
    by (rule step.Check_passes) (simp_all add: thread_id_def m spawned_twice_check)
  then show ?thesis
    using reachable.Step [OF r1] by simp
qed

lemma reachable_two_workers: "reachable system_two_workers"
proof -
  let ?w1 = "run_reset world_spawned_twice"
  let ?w2 = "run_reset ?w1"
  let ?s0 = "\<lparr>world = world_spawned_twice, threads = [Checked, Checked]\<rparr>"
  let ?s1 = "\<lparr>world = ?w1, threads = [Loading, Checked]\<rparr>"
  let ?s2 = "\<lparr>world = ?w2, threads = [Loading, Loading]\<rparr>"
  let ?s3 = "\<lparr>world = ?w2, threads = [Active, Loading]\<rparr>"
  have "step ?s0 \<lparr>world = run_reset (world ?s0), threads = (threads ?s0)[0 := Loading]\<rparr>"
    by (rule step.Resets) simp_all
  then have r1: "reachable ?s1"
    using reachable.Step [OF reachable_both_checked] by simp
  have "step ?s1 \<lparr>world = run_reset (world ?s1), threads = (threads ?s1)[1 := Loading]\<rparr>"
    by (rule step.Resets) simp_all
  then have r2: "reachable ?s2"
    using reachable.Step [OF r1] by simp
  have "step ?s2 (?s2\<lparr>threads := (threads ?s2)[0 := Active]\<rparr>)"
    by (rule step.Loads) simp_all
  then have r3: "reachable ?s3"
    using reachable.Step [OF r2] by simp
  have "step ?s3 (?s3\<lparr>threads := (threads ?s3)[1 := Active]\<rparr>)"
    by (rule step.Loads) simp_all
  then show ?thesis
    using reachable.Step [OF r3] by (simp add: system_two_workers_def)
qed

lemma apply_requests_append:
  "apply_requests (qs @ rs) self = apply_requests rs (apply_requests qs self)"
  by (induction qs arbitrary: self) simp_all

lemma after_slots_0 [simp]: "after_slots 0 slots self = self"
  by (simp add: after_slots_def)

lemma after_slots_Suc [simp]:
  "after_slots (Suc k) (qs # slots) self = after_slots k slots (apply_requests qs self)"
  by (simp add: after_slots_def apply_requests_append)

lemma pause_wait_blocked:
  "(\<And>k. k \<le> length slots \<Longrightarrow> paused (after_slots k slots self)) \<Longrightarrow>
   pause_wait self slots = (Blocked, after_slots (length slots) slots self, [])"
proof (induction slots arbitrary: self)
  case Nil
  from Nil [of 0] show ?case by simp
next
  case (Cons qs slots)
  from Cons.prems [of 0] have p: "paused self" by simp
  have "\<And>k. k \<le> length slots \<Longrightarrow> paused (after_slots k slots (apply_requests qs self))"
    using Cons.prems [of "Suc _"] by simp
  from Cons.IH [OF this] p show ?case by simp
qed

lemma pause_wait_released:
  "k < length slots \<Longrightarrow> (\<And>j. j \<le> k \<Longrightarrow> paused (after_slots j slots self)) \<Longrightarrow>
   \<not> paused (after_slots (Suc k) slots self) \<Longrightarrow>
   pause_wait self slots = (Normal, after_slots (Suc k) slots self, drop (Suc k) slots)"
proof (induction slots arbitrary: self k)
  case Nil
  then show ?case by simp
next
  case (Cons qs slots)
  from Cons.prems(2) [of 0] have p: "paused self" by simp
  show ?case
  proof (cases k)
    case 0
    with Cons.prems(3) p show ?thesis by simp
  next
    case (Suc k')
    have a: "k' < length slots" using Cons.prems(1) Suc by simp
    have b: "\<And>j. j \<le> k' \<Longrightarrow> paused (after_slots j slots (apply_requests qs self))"
      using Cons.prems(2) [of "Suc _"] Suc by simp
    have c: "\<not> paused (after_slots (Suc k') slots (apply_requests qs self))"
      using Cons.prems(3) Suc by simp
    from Cons.IH [OF a b c] p Suc show ?thesis by simp
  qed
qed

lemma apply_request_keeps_flag:
  "state_change_requested self \<Longrightarrow> state_change_requested (apply_request q self)"
  by (cases q)
     (auto simp: request_rerun_def request_stop_def request_pause_unpause_def request_pause_def
        maybe_handle_file_changed_def Let_def spawn_script_thread_def)

lemma apply_requests_keeps_flag:
  "state_change_requested self \<Longrightarrow> state_change_requested (apply_requests qs self)"
  by (induction qs arbitrary: self) (simp_all add: apply_request_keeps_flag)

lemma pause_wait_keeps_flag:
  "pause_wait self slots = (c, self', rest) \<Longrightarrow> state_change_requested self \<Longrightarrow>
   state_change_requested self'"
  by (induction self slots rule: pause_wait.induct)
     (auto split: if_splits simp: apply_requests_keeps_flag)

lemma checkpoint_keeps_flag:
  assumes "state_change_requested (runner w)"
  shows "state_change_requested (runner (snd (maybe_handle_execution_control_request w)))"
proof (cases "state (runner w) = Some PAUSE_REQUESTED")
  case True
  obtain c self' rest where
    pw: "pause_wait (set_state PAUSED ((runner w)\<lparr>paused := True\<rparr>)) (pending w) = (c, self', rest)"
    by (metis prod_cases3)
  from pause_wait_keeps_flag [OF pw] assms have "state_change_requested self'" by simp
  with True assms pw show ?thesis
    by (simp add: maybe_handle_execution_control_request_def pause_def Let_def)
next
  case False
  with assms show ?thesis by (simp add: maybe_handle_execution_control_request_def)
qed

lemma world_stop_requested_simps:
  "state_change_requested (runner world_stop_requested)"
  "state (runner world_stop_requested) = Some STOP_REQUESTED"
  by (simp_all add: world_stop_requested_def request_stop_def running_runner_not_stopped)

lemma world_pause_requested_simps:
  "state_change_requested (runner world_pause_requested)"
  "state (runner world_pause_requested) = Some PAUSE_REQUESTED"
  "pending world_pause_requested = [[], [RequestPauseUnpause], [RequestStop]]"
  by (simp_all add: world_pause_requested_def request_pause_unpause_def request_pause_def
        running_runner_not_stopped running_runner_simps)


lemma apply_request_path [simp]:
  "script_path (report (apply_request q self)) = script_path (report self)"
  by (cases q)
     (auto simp: request_rerun_def request_stop_def request_pause_unpause_def request_pause_def
        maybe_handle_file_changed_def Let_def spawn_script_thread_def)

lemma apply_requests_path [simp]:
  "script_path (report (apply_requests qs self)) = script_path (report self)"
  by (induction qs arbitrary: self) simp_all

lemma tick_path [simp]: "script_path (report (runner (tick w))) = script_path (report (runner w))"
  by (simp add: tick_def split: list.splits)

lemma tick_execs [simp]: "execs (tick w) = execs w"
  by (simp add: tick_def split: list.splits)

lemma pause_wait_path:
  "pause_wait self slots = (c, self', rest) \<Longrightarrow>
   script_path (report self') = script_path (report self)"
  by (induction self slots rule: pause_wait.induct) (auto split: if_splits)

lemma checkpoint_path_execs:
  assumes "maybe_handle_execution_control_request w = (c, w')"
  shows "script_path (report (runner w')) = script_path (report (runner w)) \<and> execs w' = execs w"
proof (cases "state_change_requested (runner w) \<and> state (runner w) = Some PAUSE_REQUESTED")
  case True
  obtain c1 self' rest where
    pw: "pause_wait (set_state PAUSED ((runner w)\<lparr>paused := True\<rparr>)) (pending w) = (c1, self', rest)"
    by (metis prod_cases3)
  from pause_wait_path [OF pw] True assms pw show ?thesis
    by (auto simp: maybe_handle_execution_control_request_def pause_def Let_def)
next
  case False
  with assms show ?thesis
    by (auto simp: maybe_handle_execution_control_request_def split: if_splits)
qed

lemma exec_script_path_execs:
  assumes ex: "exec_script tr ls ns w = (c, ns', w')"
  shows "script_path (report (runner w')) = script_path (report (runner w)) \<and> execs w' = execs w"
proof -
  let ?R = "\<lambda>a b. script_path (report (runner b)) = script_path (report (runner a)) \<and>
                   execs b = execs a"
  have refl: "\<And>w. ?R w w" by simp
  have trans: "\<And>a b c. ?R a b \<Longrightarrow> ?R b c \<Longrightarrow> ?R a c" by simp
  have slot: "\<And>w. ?R w (tick w)" by simp
  have hook: "\<And>w c w'. maybe_handle_execution_control_request w = (c, w') \<Longrightarrow> ?R w w'"
    by (rule checkpoint_path_execs)
  from exec_script_rel [of ?R, OF refl trans slot hook ex] show ?thesis .
qed

lemma run_startup_path_execs:
  "run_startup tid w = Inr w1 \<Longrightarrow>
   script_path (report (runner w1)) = script_path (report (runner w)) \<and> execs w1 = execs w"
  by (auto simp: run_startup_unfold run_reset_def Let_def split: if_splits)

lemma run_try_path_execs:
  assumes "run_try cfg script w1 = (c, w2)"
  shows "script_path (report (runner w2)) = script_path (report (runner w1)) \<and>
         (\<exists>new. execs w2 = execs w1 @ new \<and> length new \<le> 1 \<and>
                (\<forall>e \<in> set new. fst e = new_namespace (runner w1)))"
proof (cases "parses script \<and> compiles script")
  case False
  with assms show ?thesis by (auto simp: run_try_def)
next
  case True
  obtain c1 ns1 w2' where ex: "exec_script (installTracer cfg) (body script)
      (new_namespace (runner w1)) (w1\<lparr>sys_argv := argv (report (runner w1))\<rparr>) = (c1, ns1, w2')"
    by (metis prod_cases3)
  from exec_script_path_execs [OF ex]
  have "script_path (report (runner w2')) = script_path (report (runner w1))"
    and "execs w2' = execs w1" by simp_all
  moreover from assms True ex
  have "w2 = w2'\<lparr>execs := execs w2' @ [(new_namespace (runner w1), ns1)]\<rparr>"
    by (simp add: run_try_def Let_def)
  ultimately show ?thesis by simp
qed

lemma run_except_path_execs:
  "run_except c w2 = Some (rerun, w3) \<Longrightarrow>
   script_path (report (runner w3)) = script_path (report (runner w2)) \<and> execs w3 = execs w2"
  by (induction c w2 rule: run_except.induct) auto

lemma new_namespace_path:
  "script_path (report self') = script_path (report self) \<Longrightarrow>
   new_namespace self' = new_namespace self"
  by (simp add: new_namespace_def)

lemma run_execs:
  "run cfg f tid w = (c, w') \<Longrightarrow>
   script_path (report (runner w')) = script_path (report (runner w)) \<and>
   (\<exists>new. execs w' = execs w @ new \<and> (\<forall>e \<in> set new. fst e = new_namespace (runner w)))"
proof (induction cfg f tid w arbitrary: c w' rule: run.induct)
  case (1 cfg f tid w)
  show ?case
  proof (cases "run_startup tid w")
    case (Inl e)
    have "run cfg f tid w = (Raised e, w)" by (simp add: run.simps [of cfg f tid w] Inl)
    with "1.prems" have "w' = w" by simp
    then show ?thesis by simp
  next
    case (Inr w1)
    from run_startup_path_execs [OF Inr]
    have p1: "script_path (report (runner w1)) = script_path (report (runner w))"
      and e1: "execs w1 = execs w" by simp_all
    have nn: "new_namespace (runner w1) = new_namespace (runner w)"
      using p1 by (rule new_namespace_path)
    show ?thesis
    proof (cases "run_load cfg f")
      case (Inl e)
      have "run cfg f tid w = (Raised e, w1)" by (simp add: run.simps [of cfg f tid w] Inr Inl)
      with "1.prems" have "w' = w1" by simp
      with p1 e1 show ?thesis by simp
    next
      case load: (Inr script)
      obtain c2 w2 where tr: "run_try cfg script w1 = (c2, w2)" by (metis surj_pair)
      from run_try_path_execs [OF tr] obtain new where
        p2: "script_path (report (runner w2)) = script_path (report (runner w1))"
        and e2: "execs w2 = execs w1 @ new"
        and n2: "\<forall>e \<in> set new. fst e = new_namespace (runner w1)" by blast
      have goal2: "script_path (report (runner w2)) = script_path (report (runner w)) \<and>
          (\<exists>new. execs w2 = execs w @ new \<and> (\<forall>e \<in> set new. fst e = new_namespace (runner w)))"
        using p1 e1 p2 e2 n2 nn by simp
      show ?thesis
      proof (cases "run_except c2 w2")
        case None
        have "run cfg f tid w = (Blocked, w2)"
          by (simp add: run.simps [of cfg f tid w] Inr load tr None)
        with "1.prems" have "w' = w2" by simp
        with goal2 show ?thesis by simp
      next
        case (Some y)
        obtain rerun w3 where y: "y = (rerun, w3)" by (metis surj_pair)
        from run_except_path_execs [OF Some [unfolded y]]
        have p3: "script_path (report (runner w3)) = script_path (report (runner w2))"
          and e3: "execs w3 = execs w2" by simp_all
        show ?thesis
        proof (cases rerun)
          case False
          have "run cfg f tid w = (Normal, w3)"
            by (simp add: run.simps [of cfg f tid w] Inr load tr Some y False)
          with "1.prems" have "w' = w3" by simp
          with goal2 p3 e3 show ?thesis by simp
        next
          case True
          have "run cfg f tid w = run cfg f tid w3"
            by (simp add: run.simps [of cfg f tid w] Inr load tr Some y True)
          with "1.prems" have r: "run cfg f tid w3 = (c, w')" by simp
          from "1.IH" [OF Inr load tr [symmetric] Some y [symmetric] True r]
          obtain new' where p': "script_path (report (runner w')) = script_path (report (runner w3))"
            and e': "execs w' = execs w3 @ new'"
            and n': "\<forall>e \<in> set new'. fst e = new_namespace (runner w3)" by blast
          have n3: "new_namespace (runner w3) = new_namespace (runner w)"
            using p1 p2 p3 by (simp add: new_namespace_def)
          have "script_path (report (runner w')) = script_path (report (runner w))"
            using p' p3 p2 p1 by simp
          moreover have "execs w' = execs w @ (new @ new')"
            using e' e3 e2 e1 by simp
          moreover have "\<forall>e \<in> set (new @ new'). fst e = new_namespace (runner w)"
            using n2 n' nn n3 by auto
          ultimately show ?thesis by blast
        qed
      qed
    qed
  qed
qed

lemma run_startup_Inl:
  "run_startup tid w = Inl e \<Longrightarrow>
   e = AssertionError \<or> e = RuntimeError ''Script is already running''"
  by (auto simp: run_startup_unfold run_reset_def Let_def split: if_splits)

lemma run_load_Inl:
  "run_load cfg f = Inl e \<Longrightarrow> e = IOError \<or> (e = SyntaxError \<and> autoWrite cfg)"
  by (auto simp: run_load_def split: option.splits if_splits)

lemma run_outcome:
  "run cfg f tid w = (c, w') \<Longrightarrow>
   (case c of
      Normal \<Rightarrow> state (runner w') = Some STOPPED
    | Raised e \<Rightarrow> escapes cfg e
    | Blocked \<Rightarrow> True)"
proof (induction cfg f tid w arbitrary: c w' rule: run.induct)
  case (1 cfg f tid w)
  show ?case
  proof (cases "run_startup tid w")
    case (Inl e)
    have "run cfg f tid w = (Raised e, w)" by (simp add: run.simps [of cfg f tid w] Inl)
    with "1.prems" run_startup_Inl [OF Inl] show ?thesis by (auto simp: escapes_def)
  next
    case (Inr w1)
    show ?thesis
    proof (cases "run_load cfg f")
      case (Inl e)
      have "run cfg f tid w = (Raised e, w1)" by (simp add: run.simps [of cfg f tid w] Inr Inl)
      with "1.prems" run_load_Inl [OF Inl] show ?thesis by (auto simp: escapes_def)
    next
      case load: (Inr script)
      obtain c2 w2 where tr: "run_try cfg script w1 = (c2, w2)" by (metis surj_pair)
      show ?thesis
      proof (cases "run_except c2 w2")
        case None
        have "run cfg f tid w = (Blocked, w2)"
          by (simp add: run.simps [of cfg f tid w] Inr load tr None)
        with "1.prems" show ?thesis by auto
      next
        case (Some y)
        obtain rerun w3 where y: "y = (rerun, w3)" by (metis surj_pair)
        show ?thesis
        proof (cases rerun)
          case False
          have "run cfg f tid w = (Normal, w3)"
            by (simp add: run.simps [of cfg f tid w] Inr load tr Some y False)
          with "1.prems" run_except_Some_state [OF Some [unfolded y]] show ?thesis by auto
        next
          case True
          have "run cfg f tid w = run cfg f tid w3"
            by (simp add: run.simps [of cfg f tid w] Inr load tr Some y True)
          with "1.prems" have r: "run cfg f tid w3 = (c, w')" by simp
          from "1.IH" [OF Inr load tr [symmetric] Some y [symmetric] True r] show ?thesis .
        qed
      qed
    qed
  qed
qed

lemma run_except_cases:
  "run_except (Raised StopException) w =
     Some (False, w\<lparr>runner := set_state STOPPED (runner w)\<rparr>)"
  "run_except (Raised RerunException) w =
     Some (True, w\<lparr>runner := set_state STOPPED (runner w)\<rparr>)"
  "e \<noteq> StopException \<Longrightarrow> e \<noteq> RerunException \<Longrightarrow>
   run_except (Raised e) w =
     Some (False, w\<lparr>st := st w @ [StException e], runner := set_state STOPPED (runner w)\<rparr>)"
  by (cases e; simp)+

lemma log_tracks_update [simp]:
  "log_tracks (self\<lparr>paused := b\<rparr>) = log_tracks self"
  "log_tracks (self\<lparr>state_change_requested := b\<rparr>) = log_tracks self"
  "log_tracks (self\<lparr>report := r\<rparr>) = log_tracks self"
  "log_tracks (self\<lparr>threads_spawned := n\<rparr>) = log_tracks self"
  "log_tracks (self\<lparr>on_file_change_not_handled := n\<rparr>) = log_tracks self"
  by (simp_all add: log_tracks_def split: option.splits)

lemma set_state_tracks [simp]: "log_tracks self \<Longrightarrow> log_tracks (set_state s self)"
  by (auto simp: log_tracks_def set_state_def distinct_adj_append_iff split: option.splits)

lemma init_tracks: "log_tracks (init rep tid ros)"
  by (simp add: init_def log_tracks_def set_state_def)

lemma apply_request_tracks: "log_tracks self \<Longrightarrow> log_tracks (apply_request q self)"
  by (cases q)
     (simp_all add: request_rerun_def request_stop_def request_pause_unpause_def request_pause_def
        maybe_handle_file_changed_def Let_def spawn_script_thread_def)

lemma apply_requests_tracks: "log_tracks self \<Longrightarrow> log_tracks (apply_requests qs self)"
  by (induction qs arbitrary: self) (simp_all add: apply_request_tracks)

lemma tick_tracks: "log_tracks (runner w) \<Longrightarrow> log_tracks (runner (tick w))"
  by (simp add: tick_def apply_requests_tracks split: list.splits)

lemma pause_wait_tracks:
  "pause_wait self slots = (c, self', rest) \<Longrightarrow> log_tracks self \<Longrightarrow> log_tracks self'"
  by (induction self slots rule: pause_wait.induct)
     (auto split: if_splits simp: apply_requests_tracks)

lemma checkpoint_tracks:
  assumes "maybe_handle_execution_control_request w = (c, w')" and "log_tracks (runner w)"
  shows "log_tracks (runner w')"
proof (cases "state_change_requested (runner w) \<and> state (runner w) = Some PAUSE_REQUESTED")
  case True
  obtain c1 self' rest where
    pw: "pause_wait (set_state PAUSED ((runner w)\<lparr>paused := True\<rparr>)) (pending w) = (c1, self', rest)"
    by (metis prod_cases3)
  from pause_wait_tracks [OF pw] assms(2) have "log_tracks self'" by simp
  with True assms(1) pw show ?thesis
    by (auto simp: maybe_handle_execution_control_request_def pause_def Let_def)
next
  case False
  with assms show ?thesis
    by (auto simp: maybe_handle_execution_control_request_def split: if_splits)
qed

lemma exec_script_tracks:
  assumes ex: "exec_script tr ls ns w = (c, ns', w')" and t: "log_tracks (runner w)"
  shows "log_tracks (runner w')"
proof -
  define R where "R = (\<lambda>(a::World) (b::World). log_tracks (runner a) \<longrightarrow> log_tracks (runner b))"
  have refl: "\<And>w. R w w" by (simp add: R_def)
  have trans: "\<And>a b c. R a b \<Longrightarrow> R b c \<Longrightarrow> R a c" by (simp add: R_def)
  have slot: "\<And>w. R w (tick w)" by (simp add: R_def tick_tracks)
  have hook: "\<And>w c w'. maybe_handle_execution_control_request w = (c, w') \<Longrightarrow> R w w'"
    by (simp add: R_def checkpoint_tracks)
  from exec_script_rel [of R, OF refl trans slot hook ex] have "R w w'" .
  with t show ?thesis by (simp add: R_def)
qed

lemma run_startup_tracks:
  "run_startup tid w = Inr w1 \<Longrightarrow> log_tracks (runner w) \<Longrightarrow> log_tracks (runner w1)"
  by (auto simp: run_startup_unfold run_reset_def Let_def split: if_splits)

lemma run_try_tracks:
  assumes "run_try cfg script w1 = (c, w2)" and "log_tracks (runner w1)"
  shows "log_tracks (runner w2)"
proof (cases "parses script \<and> compiles script")
  case False
  with assms show ?thesis by (auto simp: run_try_def)
next
  case True
  obtain c1 ns1 w2' where ex: "exec_script (installTracer cfg) (body script)
      (new_namespace (runner w1)) (w1\<lparr>sys_argv := argv (report (runner w1))\<rparr>) = (c1, ns1, w2')"
    by (metis prod_cases3)
  from exec_script_tracks [OF ex] assms(2) have "log_tracks (runner w2')" by simp
  moreover from assms(1) True ex
  have "w2 = w2'\<lparr>execs := execs w2' @ [(new_namespace (runner w1), ns1)]\<rparr>"
    by (simp add: run_try_def Let_def)
  ultimately show ?thesis by simp
qed

lemma run_except_tracks:
  "run_except c w2 = Some (rerun, w3) \<Longrightarrow> log_tracks (runner w2) \<Longrightarrow> log_tracks (runner w3)"
  by (induction c w2 rule: run_except.induct) auto

lemma run_tracks:
  "run cfg f tid w = (c, w') \<Longrightarrow> log_tracks (runner w) \<Longrightarrow> log_tracks (runner w')"
proof (induction cfg f tid w arbitrary: c w' rule: run.induct)
  case (1 cfg f tid w)
  show ?case
  proof (cases "run_startup tid w")
    case (Inl e)
    have "run cfg f tid w = (Raised e, w)" by (simp add: run.simps [of cfg f tid w] Inl)
    with "1.prems" show ?thesis by simp
  next
    case (Inr w1)
    note t1 = run_startup_tracks [OF Inr "1.prems"(2)]
    show ?thesis
    proof (cases "run_load cfg f")
      case (Inl e)
      have "run cfg f tid w = (Raised e, w1)" by (simp add: run.simps [of cfg f tid w] Inr Inl)
      with "1.prems"(1) t1 show ?thesis by simp
    next
      case load: (Inr script)
      obtain c2 w2 where tr: "run_try cfg script w1 = (c2, w2)" by (metis surj_pair)
      note t2 = run_try_tracks [OF tr t1]
      show ?thesis
      proof (cases "run_except c2 w2")
        case None
        have "run cfg f tid w = (Blocked, w2)"
          by (simp add: run.simps [of cfg f tid w] Inr load tr None)
        with "1.prems"(1) t2 show ?thesis by simp
      next
        case (Some y)
        obtain rerun w3 where y: "y = (rerun, w3)" by (metis surj_pair)
        note t3 = run_except_tracks [OF Some [unfolded y] t2]
        show ?thesis
        proof (cases rerun)
          case False
          have "run cfg f tid w = (Normal, w3)"
            by (simp add: run.simps [of cfg f tid w] Inr load tr Some y False)
          with "1.prems"(1) t3 show ?thesis by simp
        next
          case True
          have "run cfg f tid w = run cfg f tid w3"
            by (simp add: run.simps [of cfg f tid w] Inr load tr Some y True)
          with "1.prems"(1) have r: "run cfg f tid w3 = (c, w')" by simp
          from "1.IH" [OF Inr load tr [symmetric] Some y [symmetric] True r t3] show ?thesis .
        qed
      qed
    qed
  qed
qed

lemma apply_request_spawns_stopped:
  "threads_spawned (apply_request q self) \<noteq> threads_spawned self \<Longrightarrow> is_fully_stopped self"
  using apply_request_spawns [of q self] by (simp split: if_splits)

lemma run_startup_not_fully_stopped:
  "\<not> is_fully_stopped (runner w) \<Longrightarrow> tid \<noteq> main_thread_id (runner w) \<Longrightarrow>
   run_startup tid w = Inl (RuntimeError ''Script is already running'')"
  by (simp add: run_startup_def run_check_def)

lemma two_workers_simps:
  "threads system_two_workers = [Active, Active]"
  "workers system_two_workers = 2"
  "state (runner (world system_two_workers)) = Some RUNNING"
  "st (world system_two_workers) = [StReset, StReset]"
  by (simp_all add: system_two_workers_def workers_def is_worker_def world_spawned_twice_def
        example_world_def)

lemma pause_wait_idle:
  "paused self \<Longrightarrow> pause_wait self (replicate k [] @ slots) = pause_wait self slots"
  by (induction k) simp_all

lemma pause_wait_idle_blocked:
  "paused self \<Longrightarrow> pause_wait self (replicate k []) = (Blocked, self, [])"
  using pause_wait_idle [of self k "[]"] by simp

lemma toggle_running:
  "state self = Some RUNNING \<Longrightarrow>
   request_pause_unpause self = (set_state PAUSE_REQUESTED self)\<lparr>state_change_requested := True\<rparr>"
  by (simp add: request_pause_unpause_def request_pause_def is_fully_stopped_def)

lemma toggle_paused:
  "state self = Some PAUSED \<Longrightarrow>
   request_pause_unpause self = (set_state RUNNING self)\<lparr>paused := False\<rparr>"
  by (simp add: request_pause_unpause_def)

lemma toggle_fully_stopped: "is_fully_stopped self \<Longrightarrow> request_pause_unpause self = self"
  by (auto simp: request_pause_unpause_def request_pause_def is_fully_stopped_def)

lemma hook_blocks_while_paused:
  assumes "state self = Some RUNNING"
  shows "maybe_handle_execution_control_request
           (w\<lparr>runner := request_pause_unpause self, pending := replicate k []\<rparr>) =
         (Blocked, w\<lparr>runner := set_state PAUSED ((request_pause_unpause self)\<lparr>paused := True\<rparr>),
                     pending := []\<rparr>)"
  using assms
  by (simp add: toggle_running maybe_handle_execution_control_request_def pause_def Let_def
        pause_wait_idle_blocked)

lemma hook_returns_when_resumed:
  assumes "state self = Some RUNNING"
  shows "maybe_handle_execution_control_request
           (w\<lparr>runner := request_pause_unpause self,
              pending := replicate k [] @ [RequestPauseUnpause] # rest\<rparr>) =
         (Normal,
          w\<lparr>runner := request_pause_unpause
                         (set_state PAUSED ((request_pause_unpause self)\<lparr>paused := True\<rparr>)),
            pending := rest\<rparr>)"
  using assms
  by (simp add: toggle_running toggle_paused maybe_handle_execution_control_request_def pause_def
        Let_def pause_wait_idle)

lemma resumed_runner:
  assumes "state self = Some RUNNING"
  shows "request_pause_unpause (set_state PAUSED ((request_pause_unpause self)\<lparr>paused := True\<rparr>)) =
           (set_state RUNNING (set_state PAUSED ((request_pause_unpause self)\<lparr>paused := True\<rparr>)))
             \<lparr>paused := False\<rparr>"
    and "state (request_pause_unpause
                  (set_state PAUSED ((request_pause_unpause self)\<lparr>paused := True\<rparr>))) = Some RUNNING"
    and "\<not> paused (request_pause_unpause
                  (set_state PAUSED ((request_pause_unpause self)\<lparr>paused := True\<rparr>)))"
    and "on_state_changed (request_pause_unpause
                  (set_state PAUSED ((request_pause_unpause self)\<lparr>paused := True\<rparr>))) =
           on_state_changed self @ [PAUSE_REQUESTED, PAUSED, RUNNING]"
  using assms by (simp_all add: toggle_running toggle_paused set_state_def)

text \<open>
  The insertion where the tree starts with two imports: the new import goes between them.
  With two \<^verbatim>\<open>from __future__ import\<close> lines it separates the second from the top of
  the module, which the comments of \<^verbatim>\<open>_insert_import_statement\<close> mean to avoid.
\<close>

lemma insert_import_between_imports:
  "insert_import_statement
     [ImportFrom ''__future__'' [Alias ''division'' None],
      ImportFrom ''__future__'' [Alias ''print_function'' None]] =
     [ImportFrom ''__future__'' [Alias ''division'' None], build_st_import_statement,
      ImportFrom ''__future__'' [Alias ''print_function'' None]]"
  by (simp add: insert_import_statement_def list_insert_def)

subsection \<open>The claims\<close>

text \<open>
  C5. \<^verbatim>\<open>request_stop\<close>: on a runner that is fully stopped (state \<open>INITIAL\<close> or
  \<open>STOPPED\<close>) the call changes nothing, and so does any number of such calls; on any
  other runner it sets the state to \<open>STOP_REQUESTED\<close>, clears the pause flag and raises
  the state-change flag.
\<close>

theorem request_stop_spec:
  "(is_fully_stopped self \<longrightarrow>
      request_stop self = self \<and> (request_stop ^^ n) self = self) \<and>
   (\<not> is_fully_stopped self \<longrightarrow>
      request_stop self =
        (set_state STOP_REQUESTED self)\<lparr>paused := False, state_change_requested := True\<rparr> \<and>
      state (request_stop self) = Some STOP_REQUESTED \<and>
      \<not> paused (request_stop self) \<and>
      state_change_requested (request_stop self))"
  by (simp add: request_stop_funpow request_stop_fully_stopped)
     (simp add: request_stop_def)

theorem request_stop_spec_witness:
  "is_fully_stopped example_runner \<and>
   (request_stop ^^ 3) example_runner = example_runner \<and>
   \<not> is_fully_stopped running_runner \<and>
   state (request_stop running_runner) = Some STOP_REQUESTED \<and>
   \<not> paused (request_stop running_runner) \<and>
   state_change_requested (request_stop running_runner)"
  using example_runner_fully_stopped running_runner_not_stopped
    request_stop_spec [of example_runner 3] request_stop_spec [of running_runner 0]
  by blast

text \<open>
  C10. When \<^verbatim>\<open>maybe_handle_execution_control_request\<close> is called with the state-change
  flag not set, or with the flag set and a state that is none of \<open>STOP_REQUESTED\<close>,
  \<open>RERUN_REQUESTED\<close> and \<open>PAUSE_REQUESTED\<close>, it returns normally and leaves the world as it
  was: the state, the pause flag and the state-change flag included.
\<close>

theorem checkpoint_frame:
  "\<not> state_change_requested (runner w) \<or>
   (state (runner w) \<noteq> Some STOP_REQUESTED \<and> state (runner w) \<noteq> Some RERUN_REQUESTED \<and>
    state (runner w) \<noteq> Some PAUSE_REQUESTED)
   \<Longrightarrow> maybe_handle_execution_control_request w = (Normal, w)"
  by (auto simp: maybe_handle_execution_control_request_def)

theorem checkpoint_frame_witness:
  "maybe_handle_execution_control_request example_world = (Normal, example_world) \<and>
   maybe_handle_execution_control_request
     (example_world\<lparr>runner := running_runner\<lparr>state_change_requested := True\<rparr>\<rparr>) =
   (Normal, example_world\<lparr>runner := running_runner\<lparr>state_change_requested := True\<rparr>\<rparr>)"
proof -
  have a: "\<not> state_change_requested (runner example_world)"
    by (simp add: example_world_def example_runner_simps)
  have b: "state (runner (example_world\<lparr>runner := running_runner\<lparr>state_change_requested := True\<rparr>\<rparr>))
           = Some RUNNING"
    by (simp add: running_runner_simps)
  show ?thesis
    using checkpoint_frame [of example_world]
      checkpoint_frame [of "example_world\<lparr>runner := running_runner\<lparr>state_change_requested := True\<rparr>\<rparr>"]
      a b
    by simp
qed

text \<open>
  C7. \<^verbatim>\<open>_set_state\<close> sends the state-changed notification once when the new state
  differs from the old one and sends nothing when it does not. Every request of the
  controller sends one notification, the new state, when it changes the state and none
  when it does not; so any number of \<^verbatim>\<open>request_stop\<close> calls in a row, the first made in
  a state other than \<open>STOP_REQUESTED\<close> on a runner that is not fully stopped, send
  \<open>STOP_REQUESTED\<close> exactly once. From \<^verbatim>\<open>__init__\<close> on, through every request and
  every call of \<^verbatim>\<open>_run\<close>, the notifications sent are the states entered: no two in a
  row are equal and the last one is the current state.
\<close>

theorem set_state_notifies_once:
  "(state self \<noteq> Some s \<longrightarrow>
      state (set_state s self) = Some s \<and>
      on_state_changed (set_state s self) = on_state_changed self @ [s]) \<and>
   (state self = Some s \<longrightarrow> set_state s self = self) \<and>
   (state (apply_request q self) = state self \<longrightarrow>
      on_state_changed (apply_request q self) = on_state_changed self) \<and>
   (state (apply_request q self) = Some s' \<and> state self \<noteq> Some s' \<longrightarrow>
      on_state_changed (apply_request q self) = on_state_changed self @ [s']) \<and>
   (\<not> is_fully_stopped self \<and> state self \<noteq> Some STOP_REQUESTED \<longrightarrow>
      on_state_changed ((request_stop ^^ Suc n) self) = on_state_changed self @ [STOP_REQUESTED]) \<and>
   log_tracks (init rep main_tid ros) \<and>
   (log_tracks self \<longrightarrow> log_tracks (apply_request q self)) \<and>
   (log_tracks (runner w) \<and> run cfg f tid w = (c, w') \<longrightarrow> log_tracks (runner w'))"
proof (intro conjI impI)
  assume "state (apply_request q self) = state self"
  then show "on_state_changed (apply_request q self) = on_state_changed self"
    using apply_request_log [of q self] by (auto split: option.splits)
next
  assume "state (apply_request q self) = Some s' \<and> state self \<noteq> Some s'"
  then show "on_state_changed (apply_request q self) = on_state_changed self @ [s']"
    using apply_request_log [of q self] by (auto split: option.splits)
next
  assume "\<not> is_fully_stopped self \<and> state self \<noteq> Some STOP_REQUESTED"
  then show "on_state_changed ((request_stop ^^ Suc n) self) = on_state_changed self @ [STOP_REQUESTED]"
    using request_stop_repeated by blast
next
  show "log_tracks (init rep main_tid ros)" by (rule init_tracks)
next
  assume "log_tracks self"
  then show "log_tracks (apply_request q self)" by (rule apply_request_tracks)
next
  assume "log_tracks (runner w) \<and> run cfg f tid w = (c, w')"
  then show "log_tracks (runner w')" using run_tracks by blast
qed (simp_all add: set_state_def)

theorem set_state_notifies_once_witness:
  "on_state_changed (set_state RUNNING example_runner) = [INITIAL, RUNNING] \<and>
   set_state INITIAL example_runner = example_runner \<and>
   on_state_changed (apply_request RequestStop example_runner) = [INITIAL] \<and>
   on_state_changed (apply_request RequestStop running_runner) = [INITIAL, RUNNING, STOP_REQUESTED] \<and>
   on_state_changed ((request_stop ^^ 3) running_runner) = [INITIAL, RUNNING, STOP_REQUESTED] \<and>
   log_tracks (runner world_rerun_arrives) \<and>
   log_tracks (apply_request RequestStop (runner world_rerun_arrives)) \<and>
   log_tracks (runner (snd (run plain_options (Some rerun_script) 1 world_rerun_arrives))) \<and>
   on_state_changed (runner (snd (run plain_options (Some rerun_script) 1 world_rerun_arrives))) =
     [INITIAL, RUNNING, RERUN_REQUESTED, STOPPED, RUNNING, STOPPED]"
proof -
  have a: "state (apply_request RequestStop example_runner) = state example_runner"
    by (simp add: request_stop_fully_stopped example_runner_fully_stopped)
  have b: "state (apply_request RequestStop running_runner) = Some STOP_REQUESTED"
    by (simp add: request_stop_def running_runner_not_stopped)
  have first: "on_state_changed (set_state RUNNING example_runner) = [INITIAL, RUNNING] \<and>
     set_state INITIAL example_runner = example_runner \<and>
     on_state_changed (apply_request RequestStop example_runner) = [INITIAL] \<and>
     on_state_changed (apply_request RequestStop running_runner) = [INITIAL, RUNNING, STOP_REQUESTED] \<and>
     on_state_changed ((request_stop ^^ 3) running_runner) = [INITIAL, RUNNING, STOP_REQUESTED]"
    using set_state_notifies_once [of example_runner RUNNING RequestStop INITIAL 0]
      set_state_notifies_once [of example_runner INITIAL RequestStop INITIAL 0]
      set_state_notifies_once [of running_runner RUNNING RequestStop STOP_REQUESTED 2]
      a b running_runner_not_stopped
    by (simp add: example_runner_simps running_runner_simps numeral_3_eq_3)
  have r: "runner world_rerun_arrives = init \<lparr>script_path = ''app.py'', argv = [''app.py'']\<rparr> 0 False"
    by (simp add: world_rerun_arrives_def example_world_def example_runner_def)
  have t: "log_tracks (runner world_rerun_arrives)"
    using set_state_notifies_once
      [of example_runner RUNNING RequestStop INITIAL 0 "\<lparr>script_path = ''app.py'', argv = [''app.py'']\<rparr>" 0 False]
    by (simp add: r)
  have e: "run plain_options (Some rerun_script) 1 world_rerun_arrives =
        (fst (run plain_options (Some rerun_script) 1 world_rerun_arrives),
         snd (run plain_options (Some rerun_script) 1 world_rerun_arrives))"
    by simp
  have l: "on_state_changed (runner (snd (run plain_options (Some rerun_script) 1 world_rerun_arrives))) =
     [INITIAL, RUNNING, RERUN_REQUESTED, STOPPED, RUNNING, STOPPED]"
    by code_simp
  have second: "log_tracks (apply_request RequestStop (runner world_rerun_arrives)) \<and>
     log_tracks (runner (snd (run plain_options (Some rerun_script) 1 world_rerun_arrives)))"
    using set_state_notifies_once
      [of "runner world_rerun_arrives" RUNNING RequestStop INITIAL 0
          "\<lparr>script_path = ''app.py'', argv = [''app.py'']\<rparr>" 0 False world_rerun_arrives
          plain_options "Some rerun_script" 1
          "fst (run plain_options (Some rerun_script) 1 world_rerun_arrives)"
          "snd (run plain_options (Some rerun_script) 1 world_rerun_arrives)"]
      t e
    by blast
  from first t second l show ?thesis by blast
qed

text \<open>
  C4. \<^verbatim>\<open>request_rerun(argv)\<close> replaces the argument vector of the report. On a runner
  that is fully stopped it starts one thread and changes nothing else; the start-up of
  \<^verbatim>\<open>_run\<close> on that thread then sets the state to \<open>RUNNING\<close>. On any other runner it
  sets the state to \<open>RERUN_REQUESTED\<close>, clears the pause flag, raises the state-change
  flag and starts no thread. A call that follows such a call changes the argument vector
  only, and so does a call on any runner that the system can reach in the state
  \<open>RERUN_REQUESTED\<close>.
\<close>

theorem request_rerun_spec:
  "argv (report (request_rerun a self)) = a \<and>
   (is_fully_stopped self \<longrightarrow>
      request_rerun a self =
        self\<lparr>report := (report self)\<lparr>argv := a\<rparr>,
             threads_spawned := Suc (threads_spawned self)\<rparr> \<and>
      (tid \<noteq> main_thread_id self \<longrightarrow>
         (\<exists>w'. run_startup tid (w\<lparr>runner := request_rerun a self\<rparr>) = Inr w' \<and>
               state (runner w') = Some RUNNING))) \<and>
   (\<not> is_fully_stopped self \<longrightarrow>
      request_rerun a self =
        (set_state RERUN_REQUESTED (self\<lparr>report := (report self)\<lparr>argv := a\<rparr>\<rparr>))
          \<lparr>paused := False, state_change_requested := True\<rparr> \<and>
      state (request_rerun a self) = Some RERUN_REQUESTED \<and>
      \<not> paused (request_rerun a self) \<and>
      state_change_requested (request_rerun a self) \<and>
      threads_spawned (request_rerun a self) = threads_spawned self \<and>
      request_rerun b (request_rerun a self) =
        (request_rerun a self)\<lparr>report := (report (request_rerun a self))\<lparr>argv := b\<rparr>\<rparr>) \<and>
   (reachable s \<and> state (runner (world s)) = Some RERUN_REQUESTED \<longrightarrow>
      request_rerun b (runner (world s)) =
        (runner (world s))\<lparr>report := (report (runner (world s)))\<lparr>argv := b\<rparr>\<rparr>)"
proof (intro conjI impI)
  show "argv (report (request_rerun a self)) = a"
    by (simp add: request_rerun_def Let_def spawn_script_thread_def)
next
  assume "is_fully_stopped self"
  then show "request_rerun a self =
        self\<lparr>report := (report self)\<lparr>argv := a\<rparr>, threads_spawned := Suc (threads_spawned self)\<rparr>"
    by (simp add: request_rerun_def is_fully_stopped_def spawn_script_thread_def)
next
  assume "is_fully_stopped self" and "tid \<noteq> main_thread_id self"
  then show "\<exists>w'. run_startup tid (w\<lparr>runner := request_rerun a self\<rparr>) = Inr w' \<and>
               state (runner w') = Some RUNNING"
    by (simp add: request_rerun_def is_fully_stopped_def spawn_script_thread_def run_startup_def
          run_check_def)
next
  assume n: "\<not> is_fully_stopped self"
  then show r: "request_rerun a self =
        (set_state RERUN_REQUESTED (self\<lparr>report := (report self)\<lparr>argv := a\<rparr>\<rparr>))
          \<lparr>paused := False, state_change_requested := True\<rparr>"
    by (simp add: request_rerun_def is_fully_stopped_def)
  then show s: "state (request_rerun a self) = Some RERUN_REQUESTED"
    and p: "\<not> paused (request_rerun a self)"
    and f: "state_change_requested (request_rerun a self)"
    by simp_all
  from r show "threads_spawned (request_rerun a self) = threads_spawned self" by simp
  from request_rerun_again [OF s p f]
  show "request_rerun b (request_rerun a self) =
        (request_rerun a self)\<lparr>report := (report (request_rerun a self))\<lparr>argv := b\<rparr>\<rparr>" .
next
  assume a: "reachable s \<and> state (runner (world s)) = Some RERUN_REQUESTED"
  with reachable_flags [of s] show "request_rerun b (runner (world s)) =
        (runner (world s))\<lparr>report := (report (runner (world s)))\<lparr>argv := b\<rparr>\<rparr>"
    by (simp add: requested_flags_def request_rerun_again)
qed

theorem request_rerun_spec_witness:
  "argv (report (request_rerun [''app.py'', ''x''] example_runner)) = [''app.py'', ''x''] \<and>
   request_rerun [''app.py'', ''x''] example_runner =
     example_runner\<lparr>report := (report example_runner)\<lparr>argv := [''app.py'', ''x'']\<rparr>,
                    threads_spawned := Suc (threads_spawned example_runner)\<rparr> \<and>
   (\<exists>w'. run_startup 1 (example_world\<lparr>runner := request_rerun [''app.py'', ''x''] example_runner\<rparr>) = Inr w' \<and>
         state (runner w') = Some RUNNING) \<and>
   state (request_rerun [''app.py'', ''x''] running_runner) = Some RERUN_REQUESTED \<and>
   \<not> paused (request_rerun [''app.py'', ''x''] running_runner) \<and>
   state_change_requested (request_rerun [''app.py'', ''x''] running_runner) \<and>
   threads_spawned (request_rerun [''app.py'', ''x''] running_runner) = threads_spawned running_runner \<and>
   request_rerun [''app.py'', ''y''] (request_rerun [''app.py'', ''x''] running_runner) =
     (request_rerun [''app.py'', ''x''] running_runner)
       \<lparr>report := (report (request_rerun [''app.py'', ''x''] running_runner))
                    \<lparr>argv := [''app.py'', ''y'']\<rparr>\<rparr> \<and>
   reachable system_rerun_requested \<and>
   state (runner (world system_rerun_requested)) = Some RERUN_REQUESTED \<and>
   request_rerun [''app.py'', ''y''] (runner (world system_rerun_requested)) =
     (runner (world system_rerun_requested))
       \<lparr>report := (report (runner (world system_rerun_requested)))\<lparr>argv := [''app.py'', ''y'']\<rparr>\<rparr>"
proof -
  have m: "(1::nat) \<noteq> main_thread_id example_runner" by (simp add: example_runner_simps)
  show ?thesis
    using request_rerun_spec [of "[''app.py'', ''x'']" example_runner 1 example_world
        "[''app.py'', ''y'']" system_rerun_requested]
      request_rerun_spec [of "[''app.py'', ''x'']" running_runner 1 example_world
        "[''app.py'', ''y'']" system_rerun_requested]
      example_runner_fully_stopped running_runner_not_stopped m
      reachable_rerun_requested rerun_requested_state
    by blast
qed

text \<open>
  C6. \<^verbatim>\<open>request_pause_unpause\<close> on a runner in the state \<open>RUNNING\<close> sets the state to
  \<open>PAUSE_REQUESTED\<close> and raises the state-change flag. The next call of the hook then
  sets the state to \<open>PAUSED\<close> and the pause flag and waits: after any number \<open>k\<close> of
  slots in which no request arrives it is still waiting, and when no request ever
  arrives it never returns. When the first request to arrive, after \<open>k\<close> slots without
  one, is a second \<^verbatim>\<open>request_pause_unpause\<close>, that same call of the hook returns
  normally, in the state \<open>RUNNING\<close> with the pause flag clear, the later requests still to
  come and the notifications \<open>PAUSE_REQUESTED\<close>, \<open>PAUSED\<close>, \<open>RUNNING\<close> sent; the script goes
  on with the line before which the hook was called, which is executed once.
  \<^verbatim>\<open>request_pause_unpause\<close> on a runner in the state \<open>PAUSED\<close> sets the state to
  \<open>RUNNING\<close>, clears the pause flag and leaves the state-change flag as it is. On a runner
  that is fully stopped it changes nothing.
\<close>

theorem pause_toggle_round_trip:
  "(state self = Some RUNNING \<longrightarrow>
      request_pause_unpause self =
        (set_state PAUSE_REQUESTED self)\<lparr>state_change_requested := True\<rparr> \<and>
      state (request_pause_unpause self) = Some PAUSE_REQUESTED \<and>
      state_change_requested (request_pause_unpause self) \<and>
      maybe_handle_execution_control_request
        (w\<lparr>runner := request_pause_unpause self, pending := replicate k []\<rparr>) =
        (Blocked,
         w\<lparr>runner := set_state PAUSED ((request_pause_unpause self)\<lparr>paused := True\<rparr>),
           pending := []\<rparr>) \<and>
      state (set_state PAUSED ((request_pause_unpause self)\<lparr>paused := True\<rparr>)) = Some PAUSED \<and>
      paused (set_state PAUSED ((request_pause_unpause self)\<lparr>paused := True\<rparr>)) \<and>
      maybe_handle_execution_control_request
        (w\<lparr>runner := request_pause_unpause self,
           pending := replicate k [] @ [RequestPauseUnpause] # rest\<rparr>) =
        (Normal,
         w\<lparr>runner := request_pause_unpause
                        (set_state PAUSED ((request_pause_unpause self)\<lparr>paused := True\<rparr>)),
           pending := rest\<rparr>) \<and>
      request_pause_unpause (set_state PAUSED ((request_pause_unpause self)\<lparr>paused := True\<rparr>)) =
        (set_state RUNNING (set_state PAUSED ((request_pause_unpause self)\<lparr>paused := True\<rparr>)))
          \<lparr>paused := False\<rparr> \<and>
      state (request_pause_unpause
               (set_state PAUSED ((request_pause_unpause self)\<lparr>paused := True\<rparr>))) = Some RUNNING \<and>
      \<not> paused (request_pause_unpause
                  (set_state PAUSED ((request_pause_unpause self)\<lparr>paused := True\<rparr>))) \<and>
      on_state_changed (request_pause_unpause
                          (set_state PAUSED ((request_pause_unpause self)\<lparr>paused := True\<rparr>))) =
        on_state_changed self @ [PAUSE_REQUESTED, PAUSED, RUNNING] \<and>
      exec_lines True (Bind x v # ls) ns
        (w\<lparr>runner := request_pause_unpause self,
           pending := replicate k [] @ [RequestPauseUnpause] # rest\<rparr>) =
        exec_lines True ls (AList.update x v ns)
          (tick (w\<lparr>runner := request_pause_unpause
                               (set_state PAUSED ((request_pause_unpause self)\<lparr>paused := True\<rparr>)),
                   pending := rest\<rparr>))) \<and>
   (state self = Some PAUSED \<longrightarrow>
      request_pause_unpause self = (set_state RUNNING self)\<lparr>paused := False\<rparr> \<and>
      state (request_pause_unpause self) = Some RUNNING \<and>
      \<not> paused (request_pause_unpause self) \<and>
      state_change_requested (request_pause_unpause self) = state_change_requested self) \<and>
   (is_fully_stopped self \<longrightarrow> request_pause_unpause self = self)"
proof (intro conjI impI)
  assume r: "state self = Some RUNNING"
  show "request_pause_unpause self =
        (set_state PAUSE_REQUESTED self)\<lparr>state_change_requested := True\<rparr>"
    using r by (rule toggle_running)
  show "state (request_pause_unpause self) = Some PAUSE_REQUESTED"
    using r by (simp add: toggle_running)
  show "state_change_requested (request_pause_unpause self)"
    using r by (simp add: toggle_running)
  show "maybe_handle_execution_control_request
        (w\<lparr>runner := request_pause_unpause self, pending := replicate k []\<rparr>) =
        (Blocked,
         w\<lparr>runner := set_state PAUSED ((request_pause_unpause self)\<lparr>paused := True\<rparr>),
           pending := []\<rparr>)"
    using r by (rule hook_blocks_while_paused)
  show "state (set_state PAUSED ((request_pause_unpause self)\<lparr>paused := True\<rparr>)) = Some PAUSED"
    by simp
  show "paused (set_state PAUSED ((request_pause_unpause self)\<lparr>paused := True\<rparr>))"
    by simp
  show h: "maybe_handle_execution_control_request
        (w\<lparr>runner := request_pause_unpause self,
           pending := replicate k [] @ [RequestPauseUnpause] # rest\<rparr>) =
        (Normal,
         w\<lparr>runner := request_pause_unpause
                        (set_state PAUSED ((request_pause_unpause self)\<lparr>paused := True\<rparr>)),
           pending := rest\<rparr>)"
    using r by (rule hook_returns_when_resumed)
  show "request_pause_unpause (set_state PAUSED ((request_pause_unpause self)\<lparr>paused := True\<rparr>)) =
        (set_state RUNNING (set_state PAUSED ((request_pause_unpause self)\<lparr>paused := True\<rparr>)))
          \<lparr>paused := False\<rparr>"
    using r by (rule resumed_runner(1))
  show "state (request_pause_unpause
               (set_state PAUSED ((request_pause_unpause self)\<lparr>paused := True\<rparr>))) = Some RUNNING"
    using r by (rule resumed_runner(2))
  show "\<not> paused (request_pause_unpause
                  (set_state PAUSED ((request_pause_unpause self)\<lparr>paused := True\<rparr>)))"
    using r by (rule resumed_runner(3))
  show "on_state_changed (request_pause_unpause
                          (set_state PAUSED ((request_pause_unpause self)\<lparr>paused := True\<rparr>))) =
        on_state_changed self @ [PAUSE_REQUESTED, PAUSED, RUNNING]"
    using r by (rule resumed_runner(4))
  show "exec_lines True (Bind x v # ls) ns
        (w\<lparr>runner := request_pause_unpause self,
           pending := replicate k [] @ [RequestPauseUnpause] # rest\<rparr>) =
        exec_lines True ls (AList.update x v ns)
          (tick (w\<lparr>runner := request_pause_unpause
                               (set_state PAUSED ((request_pause_unpause self)\<lparr>paused := True\<rparr>)),
                   pending := rest\<rparr>))"
    by (simp add: trace_calls_def h)
next
  assume p: "state self = Some PAUSED"
  show "request_pause_unpause self = (set_state RUNNING self)\<lparr>paused := False\<rparr>"
    using p by (rule toggle_paused)
  show "state (request_pause_unpause self) = Some RUNNING"
    using p by (simp add: toggle_paused)
  show "\<not> paused (request_pause_unpause self)"
    using p by (simp add: toggle_paused)
  show "state_change_requested (request_pause_unpause self) = state_change_requested self"
    using p by (simp add: toggle_paused)
next
  assume "is_fully_stopped self"
  then show "request_pause_unpause self = self" by (rule toggle_fully_stopped)
qed

theorem pause_toggle_round_trip_witness:
  "state (request_pause_unpause running_runner) = Some PAUSE_REQUESTED \<and>
   state_change_requested (request_pause_unpause running_runner) \<and>
   maybe_handle_execution_control_request
     (example_world\<lparr>runner := request_pause_unpause running_runner, pending := replicate 2 []\<rparr>) =
     (Blocked,
      example_world
        \<lparr>runner := set_state PAUSED ((request_pause_unpause running_runner)\<lparr>paused := True\<rparr>),
         pending := []\<rparr>) \<and>
   maybe_handle_execution_control_request
     (example_world\<lparr>runner := request_pause_unpause running_runner,
                     pending := replicate 2 [] @ [RequestPauseUnpause] # [[RequestStop]]\<rparr>) =
     (Normal,
      example_world
        \<lparr>runner := request_pause_unpause
                     (set_state PAUSED ((request_pause_unpause running_runner)\<lparr>paused := True\<rparr>)),
         pending := [[RequestStop]]\<rparr>) \<and>
   state (request_pause_unpause
            (set_state PAUSED ((request_pause_unpause running_runner)\<lparr>paused := True\<rparr>))) =
     Some RUNNING \<and>
   on_state_changed (request_pause_unpause
            (set_state PAUSED ((request_pause_unpause running_runner)\<lparr>paused := True\<rparr>))) =
     on_state_changed running_runner @ [PAUSE_REQUESTED, PAUSED, RUNNING] \<and>
   state (request_pause_unpause paused_runner) = Some RUNNING \<and>
   \<not> paused (request_pause_unpause paused_runner) \<and>
   state_change_requested (request_pause_unpause paused_runner) =
     state_change_requested paused_runner \<and>
   request_pause_unpause example_runner = example_runner"
  using pause_toggle_round_trip
      [where self = running_runner and w = example_world and k = 2 and rest = "[[RequestStop]]"]
    pause_toggle_round_trip
      [where self = paused_runner and w = example_world and k = 2 and rest = "[[RequestStop]]"]
    pause_toggle_round_trip
      [where self = example_runner and w = example_world and k = 2 and rest = "[[RequestStop]]"]
    example_runner_fully_stopped paused_runner_simps(1) running_runner_simps(1)
  by blast

text \<open>
  C2 fails on the code. \<^verbatim>\<open>request_rerun\<close> starts a thread whenever the runner is fully
  stopped, and the runner stays fully stopped until a thread has executed line 142; the
  check of line 133 and the assignment of line 142 are not one step, and no lock is held
  between them. From a new runner, two calls of \<^verbatim>\<open>request_rerun\<close> start two threads;
  both pass the check before either has set the state to \<open>RUNNING\<close>, and both go on:
  the system with two active threads is reached, where \<^verbatim>\<open>streamlit\<close> has been reset
  twice. The check, with its comment ``This should never happen!'', is there to keep the
  second thread out.
\<close>

theorem two_workers_reachable:
  "step system_started system_spawned \<and>
   step system_spawned \<lparr>world = world_spawned_twice, threads = [Unstarted, Unstarted]\<rparr> \<and>
   is_fully_stopped (runner world_spawned_twice) \<and>
   thread_id \<lparr>world = world_spawned_twice, threads = [Unstarted, Unstarted]\<rparr> 0 = 1 \<and>
   thread_id \<lparr>world = world_spawned_twice, threads = [Unstarted, Unstarted]\<rparr> 1 = 2 \<and>
   run_check 1 world_spawned_twice = None \<and>
   run_check 2 world_spawned_twice = None \<and>
   step \<lparr>world = world_spawned_twice, threads = [Unstarted, Unstarted]\<rparr>
        \<lparr>world = world_spawned_twice, threads = [Checked, Unstarted]\<rparr> \<and>
   step \<lparr>world = world_spawned_twice, threads = [Checked, Unstarted]\<rparr>
        \<lparr>world = world_spawned_twice, threads = [Checked, Checked]\<rparr> \<and>
   step \<lparr>world = world_spawned_twice, threads = [Checked, Checked]\<rparr>
        \<lparr>world = run_reset world_spawned_twice, threads = [Loading, Checked]\<rparr> \<and>
   step \<lparr>world = run_reset world_spawned_twice, threads = [Loading, Checked]\<rparr>
        \<lparr>world = run_reset (run_reset world_spawned_twice), threads = [Loading, Loading]\<rparr> \<and>
   step \<lparr>world = run_reset (run_reset world_spawned_twice), threads = [Loading, Loading]\<rparr>
        \<lparr>world = run_reset (run_reset world_spawned_twice), threads = [Active, Loading]\<rparr> \<and>
   step \<lparr>world = run_reset (run_reset world_spawned_twice), threads = [Active, Loading]\<rparr>
        system_two_workers \<and>
   reachable system_two_workers \<and>
   threads system_two_workers = [Active, Active] \<and>
   workers system_two_workers = 2 \<and>
   state (runner (world system_two_workers)) = Some RUNNING \<and>
   st (world system_two_workers) = [StReset, StReset]"
proof -
  let ?s2 = "\<lparr>world = world_spawned_twice, threads = [Unstarted, Unstarted]\<rparr>"
  let ?s3 = "\<lparr>world = world_spawned_twice, threads = [Checked, Unstarted]\<rparr>"
  let ?s4 = "\<lparr>world = world_spawned_twice, threads = [Checked, Checked]\<rparr>"
  let ?s5 = "\<lparr>world = run_reset world_spawned_twice, threads = [Loading, Checked]\<rparr>"
  let ?s6 = "\<lparr>world = run_reset (run_reset world_spawned_twice), threads = [Loading, Loading]\<rparr>"
  let ?s7 = "\<lparr>world = run_reset (run_reset world_spawned_twice), threads = [Active, Loading]\<rparr>"
  have m: "main_thread_id (runner world_spawned_twice) = 0"
    by (simp add: spawned_twice_runner example_runner_simps)
  have "step system_started
     \<lparr>world = (world system_started)\<lparr>runner := apply_request (RequestRerun [''app.py'']) (runner (world system_started))\<rparr>,
      threads = threads system_started @
         replicate (threads_spawned (apply_request (RequestRerun [''app.py'']) (runner (world system_started)))
            - threads_spawned (runner (world system_started))) Unstarted\<rparr>"
    by (rule step.Request) (rule refl)
  then have a1: "step system_started system_spawned"
    by (simp add: system_started_def system_spawned_def example_world_def spawned_runner_simps
          example_runner_simps)
  have "step system_spawned
     \<lparr>world = (world system_spawned)\<lparr>runner := apply_request (RequestRerun [''app.py'']) (runner (world system_spawned))\<rparr>,
      threads = threads system_spawned @
         replicate (threads_spawned (apply_request (RequestRerun [''app.py'']) (runner (world system_spawned)))
            - threads_spawned (runner (world system_spawned))) Unstarted\<rparr>"
    by (rule step.Request) (rule refl)
  then have a2: "step system_spawned ?s2"
    by (simp add: system_spawned_def world_spawned_twice_def request_rerun_fully_stopped
          example_runner_fully_stopped is_fully_stopped_def example_runner_simps)
  have a3: "is_fully_stopped (runner world_spawned_twice)"
    by (simp add: spawned_twice_runner is_fully_stopped_def example_runner_simps)
  have a4: "thread_id ?s2 0 = 1" "thread_id ?s2 1 = 2"
    by (simp_all add: thread_id_def m)
  have a5: "run_check 1 world_spawned_twice = None" "run_check 2 world_spawned_twice = None"
    by (simp_all add: spawned_twice_check)
  have "step ?s2 (?s2\<lparr>threads := (threads ?s2)[0 := Checked]\<rparr>)"
    by (rule step.Check_passes) (simp_all add: thread_id_def m spawned_twice_check)
  then have a6: "step ?s2 ?s3" by simp
  have "step ?s3 (?s3\<lparr>threads := (threads ?s3)[1 := Checked]\<rparr>)"
    by (rule step.Check_passes) (simp_all add: thread_id_def m spawned_twice_check)
  then have a7: "step ?s3 ?s4" by simp
  have "step ?s4 \<lparr>world = run_reset (world ?s4), threads = (threads ?s4)[0 := Loading]\<rparr>"
    by (rule step.Resets) simp_all
  then have a8: "step ?s4 ?s5" by simp
  have "step ?s5 \<lparr>world = run_reset (world ?s5), threads = (threads ?s5)[1 := Loading]\<rparr>"
    by (rule step.Resets) simp_all
  then have a9: "step ?s5 ?s6" by simp
  have "step ?s6 (?s6\<lparr>threads := (threads ?s6)[0 := Active]\<rparr>)"
    by (rule step.Loads) simp_all
  then have a10: "step ?s6 ?s7" by simp
  have "step ?s7 (?s7\<lparr>threads := (threads ?s7)[1 := Active]\<rparr>)"
    by (rule step.Loads) simp_all
  then have a11: "step ?s7 system_two_workers" by (simp add: system_two_workers_def)
  note r = reachable.Step
  have a12: "reachable system_two_workers"
    by (rule r [OF r [OF r [OF r [OF r [OF r [OF r [OF r [OF reachable_started
          a1] a2] a6] a7] a8] a9] a10] a11])
  from a1 a2 a3 a4 a5 a6 a7 a8 a9 a10 a11 a12 two_workers_simps show ?thesis by blast
qed

text \<open>
  C1, as the code has it. When the state-change flag is set,
  \<^verbatim>\<open>maybe_handle_execution_control_request\<close> acts on the state and leaves the flag set
  (it is cleared only by the start-up of \<^verbatim>\<open>_run\<close>): in the state \<open>STOP_REQUESTED\<close> it
  raises \<^verbatim>\<open>StopException\<close> and in \<open>RERUN_REQUESTED\<close> it raises \<^verbatim>\<open>RerunException\<close>,
  changing nothing; in \<open>PAUSE_REQUESTED\<close> it sets the pause flag and the state \<open>PAUSED\<close>
  and polls the pause flag once in each slot of time. If the flag is still set after
  every slot, the call never returns; otherwise it returns normally, without raising,
  after the first slot whose requests clear the flag, with the later slots still to come.
\<close>

theorem checkpoint_acts_on_state:
  assumes "state_change_requested (runner w)"
  shows
    "state_change_requested (runner (snd (maybe_handle_execution_control_request w))) \<and>
     (state (runner w) = Some STOP_REQUESTED \<longrightarrow>
        maybe_handle_execution_control_request w = (Raised StopException, w)) \<and>
     (state (runner w) = Some RERUN_REQUESTED \<longrightarrow>
        maybe_handle_execution_control_request w = (Raised RerunException, w)) \<and>
     (state (runner w) = Some PAUSE_REQUESTED \<longrightarrow>
        state (set_state PAUSED ((runner w)\<lparr>paused := True\<rparr>)) = Some PAUSED \<and>
        paused (set_state PAUSED ((runner w)\<lparr>paused := True\<rparr>)) \<and>
        ((\<forall>k \<le> length (pending w).
            paused (after_slots k (pending w) (set_state PAUSED ((runner w)\<lparr>paused := True\<rparr>)))) \<longrightarrow>
         maybe_handle_execution_control_request w =
           (Blocked,
            w\<lparr>runner := after_slots (length (pending w)) (pending w)
                          (set_state PAUSED ((runner w)\<lparr>paused := True\<rparr>)),
              pending := []\<rparr>)) \<and>
        (\<forall>k < length (pending w).
           (\<forall>j \<le> k. paused (after_slots j (pending w)
                                (set_state PAUSED ((runner w)\<lparr>paused := True\<rparr>)))) \<and>
           \<not> paused (after_slots (Suc k) (pending w)
                        (set_state PAUSED ((runner w)\<lparr>paused := True\<rparr>))) \<longrightarrow>
           maybe_handle_execution_control_request w =
             (Normal,
              w\<lparr>runner := after_slots (Suc k) (pending w)
                            (set_state PAUSED ((runner w)\<lparr>paused := True\<rparr>)),
                pending := drop (Suc k) (pending w)\<rparr>)))"
proof (intro conjI impI allI)
  show "state_change_requested (runner (snd (maybe_handle_execution_control_request w)))"
    using assms by (rule checkpoint_keeps_flag)
next
  assume "state (runner w) = Some STOP_REQUESTED"
  with assms show "maybe_handle_execution_control_request w = (Raised StopException, w)"
    by (simp add: maybe_handle_execution_control_request_def)
next
  assume "state (runner w) = Some RERUN_REQUESTED"
  with assms show "maybe_handle_execution_control_request w = (Raised RerunException, w)"
    by (simp add: maybe_handle_execution_control_request_def)
next
  show "state (set_state PAUSED ((runner w)\<lparr>paused := True\<rparr>)) = Some PAUSED" by simp
next
  show "paused (set_state PAUSED ((runner w)\<lparr>paused := True\<rparr>))" by simp
next
  assume s: "state (runner w) = Some PAUSE_REQUESTED"
    and b: "\<forall>k \<le> length (pending w).
            paused (after_slots k (pending w) (set_state PAUSED ((runner w)\<lparr>paused := True\<rparr>)))"
  from b have "pause_wait (set_state PAUSED ((runner w)\<lparr>paused := True\<rparr>)) (pending w) =
      (Blocked, after_slots (length (pending w)) (pending w)
                  (set_state PAUSED ((runner w)\<lparr>paused := True\<rparr>)), [])"
    by (intro pause_wait_blocked) simp
  with s assms show "maybe_handle_execution_control_request w =
           (Blocked,
            w\<lparr>runner := after_slots (length (pending w)) (pending w)
                          (set_state PAUSED ((runner w)\<lparr>paused := True\<rparr>)),
              pending := []\<rparr>)"
    by (simp add: maybe_handle_execution_control_request_def pause_def Let_def)
next
  fix k
  assume s: "state (runner w) = Some PAUSE_REQUESTED"
    and k: "k < length (pending w)"
    and b: "(\<forall>j \<le> k. paused (after_slots j (pending w)
                                (set_state PAUSED ((runner w)\<lparr>paused := True\<rparr>)))) \<and>
           \<not> paused (after_slots (Suc k) (pending w)
                        (set_state PAUSED ((runner w)\<lparr>paused := True\<rparr>)))"
  from k b have "pause_wait (set_state PAUSED ((runner w)\<lparr>paused := True\<rparr>)) (pending w) =
      (Normal, after_slots (Suc k) (pending w) (set_state PAUSED ((runner w)\<lparr>paused := True\<rparr>)),
       drop (Suc k) (pending w))"
    by (intro pause_wait_released) simp_all
  with s assms show "maybe_handle_execution_control_request w =
             (Normal,
              w\<lparr>runner := after_slots (Suc k) (pending w)
                            (set_state PAUSED ((runner w)\<lparr>paused := True\<rparr>)),
                pending := drop (Suc k) (pending w)\<rparr>)"
    by (simp add: maybe_handle_execution_control_request_def pause_def Let_def)
qed

theorem checkpoint_acts_on_state_witness:
  "maybe_handle_execution_control_request world_stop_requested =
     (Raised StopException, world_stop_requested) \<and>
   state_change_requested (runner (snd (maybe_handle_execution_control_request world_stop_requested))) \<and>
   maybe_handle_execution_control_request world_pause_requested =
     (Normal,
      world_pause_requested
        \<lparr>runner := after_slots (Suc (Suc 0)) (pending world_pause_requested)
                      (set_state PAUSED ((runner world_pause_requested)\<lparr>paused := True\<rparr>)),
         pending := drop (Suc (Suc 0)) (pending world_pause_requested)\<rparr>) \<and>
   state (after_slots (Suc (Suc 0)) (pending world_pause_requested)
            (set_state PAUSED ((runner world_pause_requested)\<lparr>paused := True\<rparr>))) = Some RUNNING \<and>
   drop (Suc (Suc 0)) (pending world_pause_requested) = [[RequestStop]]"
proof -
  have a: "\<forall>j \<le> Suc 0. paused (after_slots j (pending world_pause_requested)
                                (set_state PAUSED ((runner world_pause_requested)\<lparr>paused := True\<rparr>)))"
    by (simp add: le_Suc_eq world_pause_requested_simps)
  have b: "\<not> paused (after_slots (Suc (Suc 0)) (pending world_pause_requested)
                        (set_state PAUSED ((runner world_pause_requested)\<lparr>paused := True\<rparr>)))"
    by (simp add: world_pause_requested_simps request_pause_unpause_def)
  have c: "Suc 0 < length (pending world_pause_requested)"
    by (simp add: world_pause_requested_simps)
  have d: "state (after_slots (Suc (Suc 0)) (pending world_pause_requested)
            (set_state PAUSED ((runner world_pause_requested)\<lparr>paused := True\<rparr>))) = Some RUNNING"
    by (simp add: world_pause_requested_simps request_pause_unpause_def)
  have e: "drop (Suc (Suc 0)) (pending world_pause_requested) = [[RequestStop]]"
    by (simp add: world_pause_requested_simps)
  show ?thesis
    using checkpoint_acts_on_state [OF world_stop_requested_simps(1)]
      checkpoint_acts_on_state [OF world_pause_requested_simps(1)]
      world_stop_requested_simps(2) world_pause_requested_simps(2) a b c d e
    by blast
qed

text \<open>
  C1 as stated has the hook clear the state-change flag. It does not: after the hook has
  raised \<^verbatim>\<open>StopException\<close> the flag is still set.
\<close>

theorem checkpoint_keeps_flag_counterexample:
  "state_change_requested (runner world_stop_requested) \<and>
   fst (maybe_handle_execution_control_request world_stop_requested) = Raised StopException \<and>
   state_change_requested
     (runner (snd (maybe_handle_execution_control_request world_stop_requested)))"
  by (simp add: maybe_handle_execution_control_request_def world_stop_requested_simps)




text \<open>
  C8, as the code has it. Every \<^verbatim>\<open>exec\<close> that \<^verbatim>\<open>_run\<close> makes, the first and each one
  after a rerun, gets a dictionary built for it that holds \<^verbatim>\<open>__name__\<close> and
  \<^verbatim>\<open>__file__\<close> and nothing else: nothing that an earlier run has bound, and nothing of
  the runner.
\<close>

theorem fresh_namespace_each_exec:
  "run cfg f tid w = (c, w') \<Longrightarrow>
   \<exists>new. execs w' = execs w @ new \<and>
     (\<forall>e \<in> set new.
        fst e = [(''__name__'', ''__main__''), (''__file__'', script_path (report (runner w)))])"
  using run_execs [of cfg f tid w c w'] by (simp add: new_namespace_def)

theorem fresh_namespace_each_exec_witness:
  "(\<exists>new. execs (snd (run plain_options (Some rerun_script) 1 world_rerun_arrives)) =
            execs world_rerun_arrives @ new \<and>
     (\<forall>e \<in> set new.
        fst e = [(''__name__'', ''__main__''),
                 (''__file__'', script_path (report (runner world_rerun_arrives)))])) \<and>
   script_path (report (runner world_rerun_arrives)) = ''app.py'' \<and>
   execs world_rerun_arrives = [] \<and>
   execs (snd (run plain_options (Some rerun_script) 1 world_rerun_arrives)) =
     [([(''__name__'', ''__main__''), (''__file__'', ''app.py'')],
       [(''__name__'', ''__main__''), (''__file__'', ''app.py''),
        (''__builtins__'', ''<module builtins>''), (''x'', ''1'')]),
      ([(''__name__'', ''__main__''), (''__file__'', ''app.py'')],
       [(''__name__'', ''__main__''), (''__file__'', ''app.py''),
        (''__builtins__'', ''<module builtins>''), (''x'', ''1'')])]"
proof -
  have a: "run plain_options (Some rerun_script) 1 world_rerun_arrives =
        (fst (run plain_options (Some rerun_script) 1 world_rerun_arrives),
         snd (run plain_options (Some rerun_script) 1 world_rerun_arrives))"
    by simp
  have b: "script_path (report (runner world_rerun_arrives)) = ''app.py''"
    by code_simp
  have c: "execs world_rerun_arrives = []"
    by code_simp
  have d: "execs (snd (run plain_options (Some rerun_script) 1 world_rerun_arrives)) =
     [([(''__name__'', ''__main__''), (''__file__'', ''app.py'')],
       [(''__name__'', ''__main__''), (''__file__'', ''app.py''),
        (''__builtins__'', ''<module builtins>''), (''x'', ''1'')]),
      ([(''__name__'', ''__main__''), (''__file__'', ''app.py'')],
       [(''__name__'', ''__main__''), (''__file__'', ''app.py''),
        (''__builtins__'', ''<module builtins>''), (''x'', ''1'')])]"
    by code_simp
  show ?thesis
    using fresh_namespace_each_exec [OF a] b c d by blast
qed

text \<open>
  C8 as stated has the namespace empty. It is not: the dictionary that \<^verbatim>\<open>exec\<close> gets
  for a script with no line holds \<^verbatim>\<open>__name__\<close> and \<^verbatim>\<open>__file__\<close>.
\<close>

theorem namespace_not_empty_counterexample:
  "map fst (execs (snd (run plain_options (Some empty_script) 1 example_world))) =
     [[(''__name__'', ''__main__''), (''__file__'', ''app.py'')]] \<and>
   map fst (execs (snd (run plain_options (Some empty_script) 1 example_world))) \<noteq> [[]] \<and>
   fst (run plain_options (Some empty_script) 1 example_world) = Normal"
  by code_simp

text \<open>
  C3 fails on the code. With the option \<^verbatim>\<open>runner.autoWrite\<close> on, a text that does not
  parse makes \<^verbatim>\<open>_modify_ast\<close> raise \<^verbatim>\<open>SyntaxError\<close> at line 151, before the
  \<^verbatim>\<open>try\<close> block: the exception leaves \<^verbatim>\<open>_run\<close>, nothing is reported to
  \<^verbatim>\<open>streamlit\<close>, and the state stays \<open>RUNNING\<close>. With the option off the same text
  fails in \<^verbatim>\<open>compile\<close>, inside the \<^verbatim>\<open>try\<close> block, is reported, and the state
  becomes \<open>STOPPED\<close>, as the comment at line 159 intends.
\<close>

theorem rewriter_parse_failure_escapes:
  "run \<lparr>autoWrite = True, installTracer = True\<rparr> (Some broken_script) 1 example_world =
     (Raised SyntaxError,
      example_world\<lparr>runner := set_state RUNNING example_runner, st := [StReset]\<rparr>) \<and>
   state (set_state RUNNING example_runner) = Some RUNNING \<and>
   fst (run \<lparr>autoWrite = False, installTracer = True\<rparr> (Some broken_script) 1 example_world) = Normal \<and>
   state (runner (snd (run \<lparr>autoWrite = False, installTracer = True\<rparr> (Some broken_script) 1
                         example_world))) = Some STOPPED \<and>
   st (snd (run \<lparr>autoWrite = False, installTracer = True\<rparr> (Some broken_script) 1 example_world)) =
     [StReset, StException SyntaxError]"
  by code_simp

end
